theory Spec2Isabelle
  imports Main
begin

section \<open>JavaScript values, strings and configuration\<close>

text \<open>
  The blog front end is JavaScript. Its validators receive arbitrary objects, so a value is
  modelled by a datatype of the shapes the code distinguishes (\<open>typeof\<close>, \<open>Array.isArray\<close>,
  truthiness) and an object by a partial map from property names to values. A string is a list
  of code units; the model covers code units below 256, where \<open>length\<close> is the list length
  and where the character classes of the regular expressions are the ones spelled out below.
  Arrays are dense lists. Timestamps are opaque values carrying the clock reading.
\<close>

datatype jsval =
    JUndefined
  | JNull
  | JBool bool
  | JNum int
  | JStr string
  | JArr "jsval list"
  | JTime nat

type_synonym obj = "string \<rightharpoonup> jsval"

text \<open>Property access \<open>o.k\<close>: a missing property reads as \<open>undefined\<close>.\<close>

definition getProp :: "obj \<Rightarrow> string \<Rightarrow> jsval" where
  "getProp ob k = (case ob k of None \<Rightarrow> JUndefined | Some v \<Rightarrow> v)"

text \<open>Truthiness, as \<open>!x\<close> and \<open>x && ...\<close> read it.\<close>

fun truthy :: "jsval \<Rightarrow> bool" where
  "truthy JUndefined = False"
| "truthy JNull = False"
| "truthy (JBool b) = b"
| "truthy (JNum n) = (n \<noteq> 0)"
| "truthy (JStr s) = (s \<noteq> [])"
| "truthy (JArr xs) = True"
| "truthy (JTime t) = True"

text \<open>config.js: \<open>APP_CONFIG\<close>, \<open>CLOUDINARY\<close> and \<open>ADMIN_UIDS\<close>.\<close>

record app_config =
  postsPerPage :: nat
  maxImageSize :: nat
  allowedImageTypes :: "string list"
  maxTitleLength :: nat
  maxTagLength :: nat
  maxTagCount :: nat
  maxDisplayNameLength :: nat
  previewLength :: nat
  wordsPerMinute :: nat

definition APP_CONFIG :: app_config where
  "APP_CONFIG =
     \<lparr> postsPerPage = 10,
       maxImageSize = 5 * 1024 * 1024,
       allowedImageTypes = [''image/jpeg'', ''image/png'', ''image/gif'', ''image/webp''],
       maxTitleLength = 120,
       maxTagLength = 16,
       maxTagCount = 10,
       maxDisplayNameLength = 40,
       previewLength = 150,
       wordsPerMinute = 400 \<rparr>"

record cloudinary =
  cloudName :: string
  unsignedPreset :: string

definition ADMIN_UIDS :: "string list" where
  "ADMIN_UIDS = [''SjLJvvCJciUyhwWR6vaJnqQXUpx2'']"

subsection \<open>Character classes and string helpers\<close>

text \<open>
  \<open>\s\<close> (and the white space \<open>trim\<close> removes) among the code units below 256: tab, line feed,
  vertical tab, form feed, carriage return, space and no-break space.
\<close>

definition isSpace :: "char \<Rightarrow> bool" where
  "isSpace c = (of_char c \<in> {9, 10, 11, 12, 13, 32, 160 :: nat})"

definition isLower :: "char \<Rightarrow> bool" where
  "isLower c = (let n = of_char c :: nat in 97 \<le> n \<and> n \<le> 122)"

definition isUpper :: "char \<Rightarrow> bool" where
  "isUpper c = (let n = of_char c :: nat in 65 \<le> n \<and> n \<le> 90)"

definition isDigit :: "char \<Rightarrow> bool" where
  "isDigit c = (let n = of_char c :: nat in 48 \<le> n \<and> n \<le> 57)"

text \<open>\<open>\w\<close> is \<open>[A-Za-z0-9_]\<close>.\<close>

definition isWord :: "char \<Rightarrow> bool" where
  "isWord c = (isLower c \<or> isUpper c \<or> isDigit c \<or> c = CHR ''_'')"

text \<open>\<open>[a-zA-Z0-9]\<close>\<close>

definition isAlnum :: "char \<Rightarrow> bool" where
  "isAlnum c = (isLower c \<or> isUpper c \<or> isDigit c)"

definition isHyphen :: "char \<Rightarrow> bool" where
  "isHyphen c = (c = CHR ''-'')"

text \<open>
  \<open>toLowerCase\<close> on one code unit below 256: \<open>A\<close> to \<open>Z\<close> and the accented capitals
  192 to 222 (the multiplication sign 215 apart) move up by 32.
\<close>

definition toLowerCase_char :: "char \<Rightarrow> char" where
  "toLowerCase_char c =
     (let n = of_char c :: nat in
      if (65 \<le> n \<and> n \<le> 90) \<or> (192 \<le> n \<and> n \<le> 222 \<and> n \<noteq> 215)
      then char_of (n + 32) else c)"

definition toLowerCase :: "string \<Rightarrow> string" where
  "toLowerCase s = map toLowerCase_char s"

text \<open>\<open>String.prototype.trim\<close>\<close>

definition trim :: "string \<Rightarrow> string" where
  "trim s = rev (dropWhile isSpace (rev (dropWhile isSpace s)))"

section \<open>Errors\<close>

text \<open>
  The code throws \<open>Error\<close> objects that differ in their message only; every throw site is one
  constructor here, grouped under the failure kinds of the specification. The
  \<open>try\<close>/\<open>catch\<close> wrappers rethrow with the same message (\<open>handleFirebaseError\<close> returns
  \<open>error.message\<close> for an error without a code), so an error value passes through them
  unchanged; an error of the document store carries its code.
\<close>

datatype validation_error =
    NotAString string
  | TooLong string nat
  | TagsNotArray
  | TooManyTags nat
  | TagNotString
  | TagTooLong nat

datatype forbidden_reason = NotAdmin | EditNotOwner | DeleteNotOwner

datatype error =
    ValidationError validation_error
  | RequiredFieldMissing string
  | InvalidURL string
  | InvalidStatus
  | InvalidSlug
  | SlugConflict
  | Unauthenticated
  | Forbidden forbidden_reason
  | NotFound
  | BackendError string
  | NoFile
  | InvalidFile
  | FileTooLarge
  | UploadFailed string

definition bindE :: "error + 'a \<Rightarrow> ('a \<Rightarrow> error + 'b) \<Rightarrow> error + 'b" where
  "bindE r f = (case r of Inl e \<Rightarrow> Inl e | Inr x \<Rightarrow> f x)"

section \<open>Validation engine (api.profile.js, api.posts.js)\<close>

text \<open>
  Each block of the validators has the shape \<open>if (data.k !== undefined) { checks;
  validated.k = value }\<close>. A checker maps the property's value to an error, to \<open>None\<close>
  (property undefined: nothing is written) or to the value written; \<open>setField\<close> is the block.
\<close>

definition setField ::
  "string \<Rightarrow> (jsval \<Rightarrow> error + jsval option) \<Rightarrow> obj \<Rightarrow> obj \<Rightarrow> error + obj" where
  "setField k chk data validated =
     (case chk (getProp data k) of
        Inl e \<Rightarrow> Inl e
      | Inr None \<Rightarrow> Inr validated
      | Inr (Some x) \<Rightarrow> Inr (validated(k \<mapsto> x)))"

text \<open>
  displayName, nickname, bio: type check, length check on the untrimmed string, then trim.
\<close>

definition checkText :: "string \<Rightarrow> nat \<Rightarrow> jsval \<Rightarrow> error + jsval option" where
  "checkText k maxLen v =
     (case v of
        JUndefined \<Rightarrow> Inr None
      | JStr s \<Rightarrow>
          if length s > maxLen then Inl (ValidationError (TooLong k maxLen))
          else Inr (Some (JStr (trim s)))
      | _ \<Rightarrow> Inl (ValidationError (NotAString k)))"

text \<open>The callback of \<open>tags.map\<close>: \<open>None\<close> is the \<open>null\<close> it returns for an empty entry.\<close>

definition tagEntry :: "app_config \<Rightarrow> jsval \<Rightarrow> error + string option" where
  "tagEntry cfg tag =
     (case tag of
        JStr s \<Rightarrow>
          (let trimmed = trim s in
           if length trimmed = 0 then Inr None
           else if length trimmed > maxTagLength cfg
             then Inl (ValidationError (TagTooLong (maxTagLength cfg)))
           else Inr (Some trimmed))
      | _ \<Rightarrow> Inl (ValidationError TagNotString))"

text \<open>\<open>Array.prototype.map\<close> with a callback that may throw: the first throw ends it.\<close>

fun mapTags :: "app_config \<Rightarrow> jsval list \<Rightarrow> error + string option list" where
  "mapTags cfg [] = Inr []"
| "mapTags cfg (t # ts) =
     bindE (tagEntry cfg t) (\<lambda>r. bindE (mapTags cfg ts) (\<lambda>rs. Inr (r # rs)))"

text \<open>\<open>.filter(tag => tag !== null)\<close>\<close>

fun dropNulls :: "string option list \<Rightarrow> string list" where
  "dropNulls [] = []"
| "dropNulls (None # rs) = dropNulls rs"
| "dropNulls (Some s # rs) = s # dropNulls rs"

text \<open>The tags block, the same text in \<open>validateProfileData\<close> and \<open>validatePostData\<close>.\<close>

definition checkTags :: "app_config \<Rightarrow> jsval \<Rightarrow> error + jsval option" where
  "checkTags cfg v =
     (case v of
        JUndefined \<Rightarrow> Inr None
      | JArr ts \<Rightarrow>
          if length ts > maxTagCount cfg
          then Inl (ValidationError (TooManyTags (maxTagCount cfg)))
          else bindE (mapTags cfg ts)
                 (\<lambda>rs. Inr (Some (JArr (map JStr (take (maxTagCount cfg) (dropNulls rs))))))
      | _ \<Rightarrow> Inl (ValidationError TagsNotArray))"

text \<open>
  \<open>isValidURL\<close> calls the platform's \<open>new URL(string)\<close>. The parser is a parameter:
  \<open>urlProtocol s\<close> is the \<open>protocol\<close> of the parsed URL, \<open>None\<close> when the constructor throws.
\<close>

definition isValidURL :: "(string \<Rightarrow> string option) \<Rightarrow> string \<Rightarrow> bool" where
  "isValidURL urlProtocol s =
     (case urlProtocol s of
        None \<Rightarrow> False
      | Some p \<Rightarrow> p = ''http:'' \<or> p = ''https:'')"

definition checkUrl ::
  "(string \<Rightarrow> string option) \<Rightarrow> string \<Rightarrow> jsval \<Rightarrow> error + jsval option" where
  "checkUrl urlProtocol k v =
     (case v of
        JUndefined \<Rightarrow> Inr None
      | JStr s \<Rightarrow>
          (let url = trim s in
           if url \<noteq> [] \<and> \<not> isValidURL urlProtocol url then Inl (InvalidURL k)
           else Inr (Some (JStr url)))
      | _ \<Rightarrow> Inl (ValidationError (NotAString k)))"

text \<open>\<open>urlFields.forEach(field => ...)\<close>\<close>

fun checkUrlFields ::
  "(string \<Rightarrow> string option) \<Rightarrow> string list \<Rightarrow> obj \<Rightarrow> obj \<Rightarrow> error + obj" where
  "checkUrlFields urlProtocol [] data validated = Inr validated"
| "checkUrlFields urlProtocol (k # ks) data validated =
     bindE (setField k (checkUrl urlProtocol k) data validated)
       (checkUrlFields urlProtocol ks data)"

definition validateProfileData ::
  "(string \<Rightarrow> string option) \<Rightarrow> app_config \<Rightarrow> obj \<Rightarrow> error + obj" where
  "validateProfileData urlProtocol cfg data =
     bindE (setField ''displayName''
              (checkText ''displayName'' (maxDisplayNameLength cfg)) data Map.empty) (\<lambda>v1.
     bindE (setField ''nickname''
              (checkText ''nickname'' (maxDisplayNameLength cfg)) data v1) (\<lambda>v2.
     bindE (setField ''bio'' (checkText ''bio'' 500) data v2) (\<lambda>v3.
     bindE (setField ''tags'' (checkTags cfg) data v3) (\<lambda>v4.
     checkUrlFields urlProtocol [''photoURL'', ''siteBgUrl'', ''authorBgUrl''] data v4))))"

text \<open>
  Post title: on create a falsy title is refused first, then the type and the length are
  checked. The whole block is skipped when the property is undefined.
\<close>

definition checkTitle :: "app_config \<Rightarrow> bool \<Rightarrow> jsval \<Rightarrow> error + jsval option" where
  "checkTitle cfg isUpdate v =
     (if v = JUndefined then Inr None
      else if \<not> isUpdate \<and> \<not> truthy v then Inl (RequiredFieldMissing ''title'')
      else case v of
             JStr s \<Rightarrow>
               if length s > maxTitleLength cfg
               then Inl (ValidationError (TooLong ''title'' (maxTitleLength cfg)))
               else Inr (Some (JStr (trim s)))
           | _ \<Rightarrow> Inl (ValidationError (NotAString ''title'')))"

definition checkContentHtml :: "bool \<Rightarrow> jsval \<Rightarrow> error + jsval option" where
  "checkContentHtml isUpdate v =
     (if v = JUndefined then Inr None
      else if \<not> isUpdate \<and> \<not> truthy v then Inl (RequiredFieldMissing ''contentHtml'')
      else case v of
             JStr s \<Rightarrow> Inr (Some (JStr (trim s)))
           | _ \<Rightarrow> Inl (ValidationError (NotAString ''contentHtml'')))"

definition checkStatus :: "jsval \<Rightarrow> error + jsval option" where
  "checkStatus v =
     (if v = JUndefined then Inr None
      else if v = JStr ''draft'' \<or> v = JStr ''published'' then Inr (Some v)
      else Inl InvalidStatus)"

text \<open>
  \<open>isValidSlug\<close> tests \<open>/^[a-zA-Z0-9]+([a-zA-Z0-9-]*[a-zA-Z0-9])?$/\<close>: a non-empty string of
  letters, digits and hyphens that starts and ends with a letter or digit.
\<close>

definition isValidSlug :: "string \<Rightarrow> bool" where
  "isValidSlug s =
     (s \<noteq> [] \<and> list_all (\<lambda>c. isAlnum c \<or> isHyphen c) s \<and> isAlnum (hd s) \<and> isAlnum (last s))"

definition checkSlug :: "jsval \<Rightarrow> error + jsval option" where
  "checkSlug v =
     (case v of
        JUndefined \<Rightarrow> Inr None
      | JStr s \<Rightarrow>
          (let slug = trim s in
           if slug \<noteq> [] \<and> \<not> isValidSlug slug then Inl InvalidSlug
           else Inr (Some (JStr slug)))
      | _ \<Rightarrow> Inl (ValidationError (NotAString ''slug'')))"

definition validatePostData ::
  "(string \<Rightarrow> string option) \<Rightarrow> app_config \<Rightarrow> obj \<Rightarrow> bool \<Rightarrow> error + obj" where
  "validatePostData urlProtocol cfg data isUpdate =
     bindE (setField ''title'' (checkTitle cfg isUpdate) data Map.empty) (\<lambda>v1.
     bindE (setField ''contentHtml'' (checkContentHtml isUpdate) data v1) (\<lambda>v2.
     bindE (setField ''status'' checkStatus data v2) (\<lambda>v3.
     bindE (setField ''tags'' (checkTags cfg) data v3) (\<lambda>v4.
     bindE (setField ''coverUrl'' (checkUrl urlProtocol ''coverUrl'') data v4) (\<lambda>v5.
     setField ''slug'' checkSlug data v5)))))"

text \<open>
  The two validators as lists of checks run in order, and what makes a check stable under
  a second run: an undefined property stays unwritten, a written value is accepted as it is.
\<close>

fun runChecks ::
  "(string \<times> (jsval \<Rightarrow> error + jsval option)) list \<Rightarrow> obj \<Rightarrow> obj \<Rightarrow> error + obj" where
  "runChecks [] data validated = Inr validated"
| "runChecks ((k, chk) # cs) data validated =
     bindE (setField k chk data validated) (runChecks cs data)"

definition stableCheck :: "(jsval \<Rightarrow> error + jsval option) \<Rightarrow> bool" where
  "stableCheck chk =
     (chk JUndefined = Inr None \<and> (\<forall>x y. chk x = Inr (Some y) \<longrightarrow> chk y = Inr (Some y)))"

definition profileChecks ::
  "(string \<Rightarrow> string option) \<Rightarrow> app_config
     \<Rightarrow> (string \<times> (jsval \<Rightarrow> error + jsval option)) list" where
  "profileChecks urlProtocol cfg =
     [(''displayName'', checkText ''displayName'' (maxDisplayNameLength cfg)),
      (''nickname'', checkText ''nickname'' (maxDisplayNameLength cfg)),
      (''bio'', checkText ''bio'' 500),
      (''tags'', checkTags cfg),
      (''photoURL'', checkUrl urlProtocol ''photoURL''),
      (''siteBgUrl'', checkUrl urlProtocol ''siteBgUrl''),
      (''authorBgUrl'', checkUrl urlProtocol ''authorBgUrl'')]"

definition postChecks ::
  "(string \<Rightarrow> string option) \<Rightarrow> app_config \<Rightarrow> bool
     \<Rightarrow> (string \<times> (jsval \<Rightarrow> error + jsval option)) list" where
  "postChecks urlProtocol cfg isUpdate =
     [(''title'', checkTitle cfg isUpdate),
      (''contentHtml'', checkContentHtml isUpdate),
      (''status'', checkStatus),
      (''tags'', checkTags cfg),
      (''coverUrl'', checkUrl urlProtocol ''coverUrl''),
      (''slug'', checkSlug)]"

section \<open>Slug derivation (api.posts.js, generateSlug)\<close>

text \<open>\<open>.replace(/[^\w\s-]/g, '')\<close>: every character outside the class is removed.\<close>

definition stripSpecial :: "string \<Rightarrow> string" where
  "stripSpecial s = filter (\<lambda>c. isWord c \<or> isSpace c \<or> isHyphen c) s"

text \<open>
  \<open>.replace(/[\s_-]+/g, '-')\<close>: scanning from the left, a maximal run of white space,
  underscores and hyphens becomes one hyphen.
\<close>

definition isSep :: "char \<Rightarrow> bool" where
  "isSep c = (isSpace c \<or> c = CHR ''_'' \<or> isHyphen c)"

function collapseSeps :: "string \<Rightarrow> string" where
  "collapseSeps [] = []"
| "collapseSeps (c # cs) =
     (if isSep c then CHR ''-'' # collapseSeps (dropWhile isSep cs)
      else c # collapseSeps cs)"
  by pat_completeness auto
termination
  by (relation "measure length") (auto simp: le_imp_less_Suc length_dropWhile_le)

text \<open>
  \<open>.replace(/^-+|-+$/g, '')\<close>: the run of hyphens at the start and the run that reaches the
  end are removed; a run in the middle matches neither alternative.
\<close>

definition trimHyphens :: "string \<Rightarrow> string" where
  "trimHyphens s = rev (dropWhile isHyphen (rev (dropWhile isHyphen s)))"

definition generateSlug :: "string \<Rightarrow> string" where
  "generateSlug title =
     (if title = [] then []
      else take 50 (trimHyphens (collapseSeps (stripSpecial (toLowerCase title)))))"

text \<open>
  The specification's wording of the same function, stage by stage, with its own recursions:
  runs are collapsed by looking one character ahead, trailing hyphens are dropped from the
  right. It is compared with \<open>generateSlug\<close> below.
\<close>

fun collapseRuns :: "string \<Rightarrow> string" where
  "collapseRuns [] = []"
| "collapseRuns [c] = (if isSep c then [CHR ''-''] else [c])"
| "collapseRuns (c # d # cs) =
     (if isSep c \<and> isSep d then collapseRuns (d # cs)
      else (if isSep c then CHR ''-'' else c) # collapseRuns (d # cs))"

fun dropLeadingHyphens :: "string \<Rightarrow> string" where
  "dropLeadingHyphens [] = []"
| "dropLeadingHyphens (c # cs) = (if c = CHR ''-'' then dropLeadingHyphens cs else c # cs)"

fun dropTrailingHyphens :: "string \<Rightarrow> string" where
  "dropTrailingHyphens [] = []"
| "dropTrailingHyphens (c # cs) =
     (let r = dropTrailingHyphens cs in if r = [] \<and> c = CHR ''-'' then [] else c # r)"

definition deriveSlug :: "string \<Rightarrow> string" where
  "deriveSlug title =
     take 50 (dropTrailingHyphens (dropLeadingHyphens (collapseRuns
       (filter (\<lambda>c. isWord c \<or> isSpace c \<or> c = CHR ''-'') (map toLowerCase_char title)))))"

text \<open>No two hyphens stand next to each other.\<close>

definition noHyphenPair :: "char \<Rightarrow> char \<Rightarrow> bool" where
  "noHyphenPair a b = (\<not> (isHyphen a \<and> isHyphen b))"

section \<open>Session state and guards (auth.js)\<close>

record user =
  uid :: string
  displayName :: string
  email :: string
  photoURL :: string

text \<open>
  auth.js. The provider's identity is read in \<open>waitForAuthInit\<close>: the promise resolves to
  \<open>auth.currentUser\<close> when that is known and to the user of the first change notification
  otherwise, so in both branches to the identity the provider has established, or to none.
  That identity is the \<open>session\<close> every operation below receives; \<open>getCurrentUser\<close> reads
  the module variable the change listener keeps, which the upload module takes as a
  parameter.
\<close>

definition waitForAuthInit :: "user option \<Rightarrow> user option" where
  "waitForAuthInit session = session"

text \<open>\<open>isAdmin(user)\<close>: false without a user, else \<open>ADMIN_UIDS.includes(user.uid)\<close>.\<close>

definition isAdmin :: "user option \<Rightarrow> bool" where
  "isAdmin usr = (case usr of None \<Rightarrow> False | Some u \<Rightarrow> uid u \<in> set ADMIN_UIDS)"

definition requireAuth :: "user option \<Rightarrow> error + user" where
  "requireAuth session =
     (case waitForAuthInit session of
        None \<Rightarrow> Inl Unauthenticated
      | Some u \<Rightarrow> Inr u)"

definition requireAdmin :: "user option \<Rightarrow> error + user" where
  "requireAdmin session =
     bindE (requireAuth session)
       (\<lambda>u. if \<not> isAdmin (Some u) then Inl (Forbidden NotAdmin) else Inr u)"

section \<open>Post resource manager (api.posts.js)\<close>

text \<open>
  The \<open>posts\<close> collection of the document store is a list of documents, identifier and data,
  in the order in which the store answers a query; every call the code issues to the store is
  appended to a log. The store is modelled as always reachable: a read never fails, and a write
  fails only where the store's contract says so (\<open>update\<close> of a document that does not exist
  is refused with the code \<open>not-found\<close>, which \<open>handleFirebaseError\<close> has in its table).
  Keys are taken to be well-formed document identifiers.
\<close>

datatype call =
    DocGet string
  | SlugQuery jsval
  | DocAdd string obj
  | DocUpdate string obj
  | DocDelete string

record world =
  posts :: "(string \<times> obj) list"
  log :: "call list"

fun isRead :: "call \<Rightarrow> bool" where
  "isRead (DocGet k) = True"
| "isRead (SlugQuery v) = True"
| "isRead (DocAdd k d) = False"
| "isRead (DocUpdate k d) = False"
| "isRead (DocDelete k) = False"

text \<open>\<open>db.collection('posts').doc(key).get()\<close>\<close>

definition docGet :: "string \<Rightarrow> world \<Rightarrow> obj option \<times> world" where
  "docGet key w = (map_of (posts w) key, w\<lparr>log := log w @ [DocGet key]\<rparr>)"

text \<open>\<open>.where('slug', '==', value).limit(1).get()\<close>: the first match, if any.\<close>

definition slugQuery :: "jsval \<Rightarrow> world \<Rightarrow> (string \<times> obj) option \<times> world" where
  "slugQuery v w =
     (find (\<lambda>(i, d). getProp d ''slug'' = v) (posts w), w\<lparr>log := log w @ [SlugQuery v]\<rparr>)"

text \<open>\<open>.add(data)\<close>: the store generates the identifier, here \<open>newId\<close>.\<close>

definition docAdd :: "string \<Rightarrow> obj \<Rightarrow> world \<Rightarrow> world" where
  "docAdd newId d w =
     w\<lparr>posts := (if map_of (posts w) newId = None then posts w @ [(newId, d)]
                 else map (\<lambda>(i, old). if i = newId then (i, d) else (i, old)) (posts w)),
       log := log w @ [DocAdd newId d]\<rparr>"

text \<open>\<open>.doc(key).update(patch)\<close>: a merge into an existing document.\<close>

definition docUpdate :: "string \<Rightarrow> obj \<Rightarrow> world \<Rightarrow> (error + unit) \<times> world" where
  "docUpdate key patch w =
     (if map_of (posts w) key = None
      then (Inl (BackendError ''not-found''), w\<lparr>log := log w @ [DocUpdate key patch]\<rparr>)
      else (Inr (),
            w\<lparr>posts := map (\<lambda>(i, d). if i = key then (i, d ++ patch) else (i, d)) (posts w),
              log := log w @ [DocUpdate key patch]\<rparr>))"

text \<open>\<open>.doc(key).delete()\<close>: deleting a missing document is not an error.\<close>

definition docDelete :: "string \<Rightarrow> world \<Rightarrow> world" where
  "docDelete key w =
     w\<lparr>posts := filter (\<lambda>(i, d). i \<noteq> key) (posts w), log := log w @ [DocDelete key]\<rparr>"

text \<open>\<open>{ id: doc.id, ...doc.data() }\<close>\<close>

definition withId :: "string \<Rightarrow> obj \<Rightarrow> obj" where
  "withId i d = (Map.empty(''id'' \<mapsto> JStr i)) ++ d"

definition getPostByIdOrSlug :: "string \<Rightarrow> world \<Rightarrow> obj option \<times> world" where
  "getPostByIdOrSlug key w =
     (let (doc, w1) = docGet key w in
      case doc of
        Some d \<Rightarrow> (Some (withId key d), w1)
      | None \<Rightarrow>
          if length key > 20 then
            (let (found, w2) = slugQuery (JStr key) w1 in
             case found of
               Some (i, d) \<Rightarrow> (Some (withId i d), w2)
             | None \<Rightarrow> (None, w2))
          else (None, w1))"

definition getPostBySlug :: "jsval \<Rightarrow> world \<Rightarrow> obj option \<times> world" where
  "getPostBySlug slug w =
     (let (found, w1) = slugQuery slug w in
      case found of
        None \<Rightarrow> (None, w1)
      | Some (i, d) \<Rightarrow> (Some (withId i d), w1))"

text \<open>
  The parameter pattern of \<open>createPost\<close>: \<open>{ title, contentHtml, tags = [], status = 'draft',
  coverUrl = '', slug = '' }\<close>, passed on as one object with these six properties.
\<close>

definition withDefault :: "jsval \<Rightarrow> jsval \<Rightarrow> jsval" where
  "withDefault dflt v = (if v = JUndefined then dflt else v)"

definition createPostArgs :: "obj \<Rightarrow> obj" where
  "createPostArgs input =
     Map.empty
       (''title'' \<mapsto> getProp input ''title'',
        ''contentHtml'' \<mapsto> getProp input ''contentHtml'',
        ''tags'' \<mapsto> withDefault (JArr []) (getProp input ''tags''),
        ''status'' \<mapsto> withDefault (JStr ''draft'') (getProp input ''status''),
        ''coverUrl'' \<mapsto> withDefault (JStr []) (getProp input ''coverUrl''),
        ''slug'' \<mapsto> withDefault (JStr []) (getProp input ''slug''))"

text \<open>
  \<open>createPost\<close>: \<open>newId\<close> is the identifier the store generates, \<open>tCreated\<close> and
  \<open>tUpdated\<close> are the two readings of \<open>timestamp.now()\<close>.
\<close>

definition createPost ::
  "user option \<Rightarrow> (string \<Rightarrow> string option) \<Rightarrow> app_config \<Rightarrow> obj \<Rightarrow> string \<Rightarrow> nat \<Rightarrow> nat
     \<Rightarrow> world \<Rightarrow> (error + obj) \<times> world" where
  "createPost session urlProtocol cfg input newId tCreated tUpdated w =
     (case requireAdmin session of
        Inl e \<Rightarrow> (Inl e, w)
      | Inr usr \<Rightarrow>
          (case validatePostData urlProtocol cfg (createPostArgs input) False of
             Inl e \<Rightarrow> (Inl e, w)
           | Inr validatedData \<Rightarrow>
               (let (existingPost, w1) =
                      (if truthy (getProp validatedData ''slug'')
                       then getPostBySlug (getProp validatedData ''slug'') w
                       else (None, w))
                in if existingPost \<noteq> None then (Inl SlugConflict, w1)
                   else
                     (let postData = validatedData
                            (''authorId'' \<mapsto> JStr (uid usr),
                             ''createdAt'' \<mapsto> JTime tCreated,
                             ''updatedAt'' \<mapsto> JTime tUpdated)
                      in (Inr (withId newId postData), docAdd newId postData w1)))))"

definition updatePost ::
  "user option \<Rightarrow> (string \<Rightarrow> string option) \<Rightarrow> app_config \<Rightarrow> string \<Rightarrow> obj \<Rightarrow> nat
     \<Rightarrow> world \<Rightarrow> (error + obj) \<times> world" where
  "updatePost session urlProtocol cfg key patch now w =
     (case requireAdmin session of
        Inl e \<Rightarrow> (Inl e, w)
      | Inr usr \<Rightarrow>
          (let (found, w1) = getPostByIdOrSlug key w in
           case found of
             None \<Rightarrow> (Inl NotFound, w1)
           | Some existingPost \<Rightarrow>
               if getProp existingPost ''authorId'' \<noteq> JStr (uid usr)
               then (Inl (Forbidden EditNotOwner), w1)
               else
                 (case validatePostData urlProtocol cfg patch True of
                    Inl e \<Rightarrow> (Inl e, w1)
                  | Inr validatedPatch \<Rightarrow>
                      (let (existingWithSlug, w2) =
                             (if truthy (getProp validatedPatch ''slug'') \<and>
                                 getProp validatedPatch ''slug'' \<noteq> getProp existingPost ''slug''
                              then getPostBySlug (getProp validatedPatch ''slug'') w1
                              else (None, w1))
                       in if (case existingWithSlug of
                                Some other \<Rightarrow> getProp other ''id'' \<noteq> JStr key
                              | None \<Rightarrow> False)
                          then (Inl SlugConflict, w2)
                          else
                            (let stamped = validatedPatch(''updatedAt'' \<mapsto> JTime now);
                                 (written, w3) = docUpdate key stamped w2
                             in case written of
                                  Inl e \<Rightarrow> (Inl e, w3)
                                | Inr u \<Rightarrow>
                                    (Inr ((Map.empty(''id'' \<mapsto> JStr key))
                                            ++ existingPost ++ stamped), w3))))))"

definition publishPost ::
  "user option \<Rightarrow> (string \<Rightarrow> string option) \<Rightarrow> app_config \<Rightarrow> string \<Rightarrow> nat
     \<Rightarrow> world \<Rightarrow> (error + obj) \<times> world" where
  "publishPost session urlProtocol cfg key now w =
     updatePost session urlProtocol cfg key (Map.empty(''status'' \<mapsto> JStr ''published'')) now w"

definition unpublishPost ::
  "user option \<Rightarrow> (string \<Rightarrow> string option) \<Rightarrow> app_config \<Rightarrow> string \<Rightarrow> nat
     \<Rightarrow> world \<Rightarrow> (error + obj) \<times> world" where
  "unpublishPost session urlProtocol cfg key now w =
     updatePost session urlProtocol cfg key (Map.empty(''status'' \<mapsto> JStr ''draft'')) now w"

definition deletePost :: "user option \<Rightarrow> string \<Rightarrow> world \<Rightarrow> (error + bool) \<times> world" where
  "deletePost session key w =
     (case requireAdmin session of
        Inl e \<Rightarrow> (Inl e, w)
      | Inr usr \<Rightarrow>
          (let (found, w1) = getPostByIdOrSlug key w in
           case found of
             None \<Rightarrow> (Inl NotFound, w1)
           | Some existingPost \<Rightarrow>
               if getProp existingPost ''authorId'' \<noteq> JStr (uid usr)
               then (Inl (Forbidden DeleteNotOwner), w1)
               else (Inr True, docDelete key w1)))"

section \<open>Upload mediator (upload.js)\<close>

text \<open>
  A file has a declared type and a size. The image host is a parameter: \<open>fetch\<close> maps the
  request to the rejection message of the promise or to the response, of which the code reads
  \<open>ok\<close>, \<open>status\<close>, the error message of the body (empty when there is none) and the fields
  of the result (\<open>secure_url\<close> empty when it is missing). Every request sent is returned
  beside the result, so that no request means no network call. The current user is what
  \<open>getCurrentUser\<close> of auth.js returns at the call.
\<close>

record image_file =
  fileType :: string
  fileSize :: nat

record upload_request =
  reqUrl :: string
  reqFile :: image_file
  reqPreset :: string
  reqFolder :: string
  reqResourceType :: string
  reqTransformation :: string

record upload_result =
  resUrl :: string
  resPublicId :: jsval
  resWidth :: jsval
  resHeight :: jsval
  resFormat :: jsval
  resBytes :: jsval

record http_response =
  respOk :: bool
  respStatus :: nat
  respErrorMessage :: string
  respBody :: upload_result

definition validateImageFile :: "app_config \<Rightarrow> image_file option \<Rightarrow> error + image_file" where
  "validateImageFile cfg file =
     (case file of
        None \<Rightarrow> Inl NoFile
      | Some f \<Rightarrow>
          if fileType f \<notin> set (allowedImageTypes cfg) then Inl InvalidFile
          else if fileSize f > maxImageSize cfg then Inl FileTooLarge
          else Inr f)"

text \<open>
  The messages of the upload failures contain text that is not modelled; the failure carries
  the host's message when there is one, and a tag otherwise (\<open>status\<close> for a refused request,
  \<open>missing-url\<close> for a response without URL, \<open>failed\<close> for a rejection without message).
\<close>

definition uploadImage ::
  "cloudinary \<Rightarrow> app_config \<Rightarrow> user option \<Rightarrow> (upload_request \<Rightarrow> string + http_response)
     \<Rightarrow> image_file option \<Rightarrow> string \<Rightarrow> (error + upload_result) \<times> upload_request list" where
  "uploadImage cl cfg currentUser fetch file folder =
     (case validateImageFile cfg file of
        Inl e \<Rightarrow> (Inl e, [])
      | Inr f \<Rightarrow>
          (let uploadUrl = ''https://api.cloudinary.com/v1_1/'' @ cloudName cl @ ''/upload'';
               userFolder = (case currentUser of
                               Some u \<Rightarrow> folder @ ''/'' @ uid u
                             | None \<Rightarrow> folder);
               request = \<lparr> reqUrl = uploadUrl, reqFile = f, reqPreset = unsignedPreset cl,
                           reqFolder = userFolder, reqResourceType = ''image'',
                           reqTransformation = ''q_auto,f_auto'' \<rparr>
           in case fetch request of
                Inl msg \<Rightarrow> (Inl (UploadFailed (if msg = [] then ''failed'' else msg)), [request])
              | Inr response \<Rightarrow>
                  if \<not> respOk response
                  then (Inl (UploadFailed (if respErrorMessage response = [] then ''status''
                                           else respErrorMessage response)), [request])
                  else if resUrl (respBody response) = []
                  then (Inl (UploadFailed ''missing-url''), [request])
                  else (Inr (respBody response), [request])))"

definition uploadAvatar ::
  "cloudinary \<Rightarrow> app_config \<Rightarrow> user option \<Rightarrow> (upload_request \<Rightarrow> string + http_response)
     \<Rightarrow> image_file option \<Rightarrow> (error + upload_result) \<times> upload_request list" where
  "uploadAvatar cl cfg currentUser fetch file =
     uploadImage cl cfg currentUser fetch file ''avatars''"

section \<open>Concrete data for the examples\<close>

text \<open>
  A stand-in for the platform's URL parser, used at concrete inputs only: it knows the two
  schemes the code accepts and one it refuses.
\<close>

definition exampleUrlProtocol :: "string \<Rightarrow> string option" where
  "exampleUrlProtocol s =
     (if take 7 s = ''http://'' then Some ''http:''
      else if take 8 s = ''https://'' then Some ''https:''
      else if take 6 s = ''ftp://'' then Some ''ftp:''
      else None)"

definition exampleProfileInput :: obj where
  "exampleProfileInput =
     Map.empty
       (''displayName'' \<mapsto> JStr ''  Ann  '',
        ''bio'' \<mapsto> JStr '' hi '',
        ''tags'' \<mapsto> JArr [JStr '' a '', JStr ''  '', JStr ''b''],
        ''photoURL'' \<mapsto> JStr '' https://x.org/a.png '')"

definition exampleProfileOutput :: obj where
  "exampleProfileOutput =
     Map.empty
       (''displayName'' \<mapsto> JStr ''Ann'',
        ''bio'' \<mapsto> JStr ''hi'',
        ''tags'' \<mapsto> JArr [JStr ''a'', JStr ''b''],
        ''photoURL'' \<mapsto> JStr ''https://x.org/a.png'')"

definition elevenTags :: "jsval list" where
  "elevenTags = replicate 11 (JStr ''a'')"

definition adminUser :: user where
  "adminUser = \<lparr> uid = ''SjLJvvCJciUyhwWR6vaJnqQXUpx2'', displayName = ''Admin'',
                 email = ''admin@example.org'', photoURL = [] \<rparr>"

definition examplePost :: obj where
  "examplePost =
     Map.empty
       (''title'' \<mapsto> JStr ''Hello'',
        ''contentHtml'' \<mapsto> JStr ''<p>Hi</p>'',
        ''status'' \<mapsto> JStr ''draft'',
        ''tags'' \<mapsto> JArr [],
        ''coverUrl'' \<mapsto> JStr [],
        ''slug'' \<mapsto> JStr ''my-post'',
        ''authorId'' \<mapsto> JStr ''SjLJvvCJciUyhwWR6vaJnqQXUpx2'',
        ''createdAt'' \<mapsto> JTime 1,
        ''updatedAt'' \<mapsto> JTime 1)"

definition longSlugPost :: obj where
  "longSlugPost =
     Map.empty
       (''title'' \<mapsto> JStr ''Second'',
        ''contentHtml'' \<mapsto> JStr ''<p>Two</p>'',
        ''status'' \<mapsto> JStr ''published'',
        ''slug'' \<mapsto> JStr ''a-long-slug-for-the-second-post'',
        ''authorId'' \<mapsto> JStr ''SjLJvvCJciUyhwWR6vaJnqQXUpx2'')"

definition othersPost :: obj where
  "othersPost =
     Map.empty
       (''title'' \<mapsto> JStr ''Theirs'',
        ''contentHtml'' \<mapsto> JStr ''<p>Three</p>'',
        ''status'' \<mapsto> JStr ''draft'',
        ''slug'' \<mapsto> JStr ''their-post'',
        ''authorId'' \<mapsto> JStr ''someone-else'')"

definition blogWorld :: world where
  "blogWorld =
     \<lparr> posts = [(''p1'', examplePost), (''p2'', longSlugPost), (''p3'', othersPost)], log = [] \<rparr>"

definition twinPost :: obj where
  "twinPost =
     Map.empty
       (''title'' \<mapsto> JStr ''Twin'',
        ''contentHtml'' \<mapsto> JStr ''<p>Same slug</p>'',
        ''status'' \<mapsto> JStr ''draft'',
        ''slug'' \<mapsto> JStr ''my-post'',
        ''authorId'' \<mapsto> JStr ''SjLJvvCJciUyhwWR6vaJnqQXUpx2'')"

definition twinWorld :: world where
  "twinWorld = \<lparr> posts = [(''p1'', examplePost), (''p5'', twinPost)], log = [] \<rparr>"

definition newPostInput :: obj where
  "newPostInput =
     Map.empty
       (''title'' \<mapsto> JStr '' Another '',
        ''contentHtml'' \<mapsto> JStr ''<p>Again</p>'',
        ''slug'' \<mapsto> JStr ''my-post'')"

definition newPostValidated :: obj where
  "newPostValidated =
     Map.empty
       (''title'' \<mapsto> JStr ''Another'',
        ''contentHtml'' \<mapsto> JStr ''<p>Again</p>'',
        ''status'' \<mapsto> JStr ''draft'',
        ''tags'' \<mapsto> JArr [],
        ''coverUrl'' \<mapsto> JStr [],
        ''slug'' \<mapsto> JStr ''my-post'')"

definition renamePatch :: obj where
  "renamePatch =
     Map.empty(''title'' \<mapsto> JStr '' Renamed '', ''authorId'' \<mapsto> JStr ''someone-else'')"

definition renameValidated :: obj where
  "renameValidated = Map.empty(''title'' \<mapsto> JStr ''Renamed'')"

definition archivePatch :: obj where
  "archivePatch = Map.empty(''status'' \<mapsto> JStr ''archived'')"

definition exampleCloud :: cloudinary where
  "exampleCloud = \<lparr> cloudName = ''demo'', unsignedPreset = ''blog_unsigned'' \<rparr>"

definition offlineFetch :: "upload_request \<Rightarrow> string + http_response" where
  "offlineFetch request = Inl ''offline''"

definition svgFile :: image_file where
  "svgFile = \<lparr> fileType = ''image/svg+xml'', fileSize = 2048 \<rparr>"

definition hugePng :: image_file where
  "hugePng = \<lparr> fileType = ''image/png'', fileSize = 6 * 1024 * 1024 \<rparr>"

definition smallPng :: image_file where
  "smallPng = \<lparr> fileType = ''image/png'', fileSize = 2048 \<rparr>"

section \<open>Slug derivation: properties\<close>

lemma toLowerCase_char_not_upper: "\<not> isUpper (toLowerCase_char c)"
  by (auto simp: toLowerCase_char_def isUpper_def Let_def)

lemma set_collapseSeps:
  "c \<in> set (collapseSeps s) \<Longrightarrow> isHyphen c \<or> (c \<in> set s \<and> \<not> isSep c)"
proof (induction s arbitrary: c rule: collapseSeps.induct)
  case 1
  then show ?case by simp
next
  case (2 d ds)
  then show ?case
    by (auto simp: isHyphen_def split: if_splits dest: set_dropWhileD)
qed

lemma set_dropWhile_subset: "set (dropWhile P s) \<subseteq> set s"
  by (auto dest: set_dropWhileD)

lemma set_trimHyphens: "set (trimHyphens s) \<subseteq> set s"
proof -
  have "set (trimHyphens s) = set (dropWhile isHyphen (rev (dropWhile isHyphen s)))"
    by (simp add: trimHyphens_def)
  also have "\<dots> \<subseteq> set (rev (dropWhile isHyphen s))" by (rule set_dropWhile_subset)
  also have "\<dots> = set (dropWhile isHyphen s)" by simp
  also have "\<dots> \<subseteq> set s" by (rule set_dropWhile_subset)
  finally show ?thesis .
qed

lemma generateSlug_chars:
  assumes "c \<in> set (generateSlug t)"
  shows "isLower c \<or> isDigit c \<or> isHyphen c"
proof -
  from assms have "c \<in> set (trimHyphens (collapseSeps (stripSpecial (toLowerCase t))))"
    by (auto simp: generateSlug_def split: if_splits dest: in_set_takeD)
  then have "c \<in> set (collapseSeps (stripSpecial (toLowerCase t)))"
    using set_trimHyphens by blast
  then have "isHyphen c \<or> (c \<in> set (stripSpecial (toLowerCase t)) \<and> \<not> isSep c)"
    by (rule set_collapseSeps)
  then show ?thesis
  proof
    assume "isHyphen c" then show ?thesis by simp
  next
    assume h: "c \<in> set (stripSpecial (toLowerCase t)) \<and> \<not> isSep c"
    then have "\<not> isUpper c"
      by (auto simp: stripSpecial_def toLowerCase_def toLowerCase_char_not_upper)
    moreover from h have "isWord c"
      by (auto simp: stripSpecial_def isSep_def)
    moreover from h have "c \<noteq> CHR ''_''" by (simp add: isSep_def)
    ultimately show ?thesis by (auto simp: isWord_def)
  qed
qed


lemma hd_collapseSeps:
  "s \<noteq> [] \<Longrightarrow> \<not> isSep (hd s) \<Longrightarrow> collapseSeps s \<noteq> [] \<and> hd (collapseSeps s) = hd s"
  by (cases s) auto

lemma successively_collapseSeps: "successively noHyphenPair (collapseSeps s)"
proof (induction s rule: collapseSeps.induct)
  case 1
  then show ?case by simp
next
  case (2 c cs)
  show ?case
  proof (cases "isSep c")
    case True
    let ?r = "dropWhile isSep cs"
    have ih: "successively noHyphenPair (collapseSeps ?r)" using 2 True by simp
    have eq: "collapseSeps (c # cs) = CHR ''-'' # collapseSeps ?r"
      using \<open>isSep c\<close> by simp
    show ?thesis
    proof (cases "?r = []")
      case True
      then have "collapseSeps ?r = []" by (simp only: collapseSeps.simps)
      then show ?thesis unfolding eq by simp
    next
      case False
      then have "\<not> isSep (hd ?r)" by (rule hd_dropWhile)
      with False have "collapseSeps ?r \<noteq> [] \<and> hd (collapseSeps ?r) = hd ?r"
        by (simp add: hd_collapseSeps)
      moreover have "\<not> isHyphen (hd ?r)" using \<open>\<not> isSep (hd ?r)\<close> by (simp add: isSep_def)
      ultimately show ?thesis using ih unfolding eq
        by (simp add: successively_Cons noHyphenPair_def)
    qed
  next
    case False
    then have "\<not> isHyphen c" by (simp add: isSep_def)
    with False 2 show ?thesis by (simp add: successively_Cons noHyphenPair_def)
  qed
qed

lemma successively_dropWhile: "successively P s \<Longrightarrow> successively P (dropWhile Q s)"
  by (induction s) (auto simp: successively_Cons)

lemma successively_take: "successively P s \<Longrightarrow> successively P (take n s)"
proof -
  assume "successively P s"
  then have "successively P (take n s @ drop n s)" by simp
  then show ?thesis unfolding successively_append_iff by blast
qed

lemma noHyphenPair_sym: "(\<lambda>x y. noHyphenPair y x) = noHyphenPair"
  by (auto simp: noHyphenPair_def fun_eq_iff)

lemma successively_trimHyphens:
  "successively noHyphenPair s \<Longrightarrow> successively noHyphenPair (trimHyphens s)"
  unfolding trimHyphens_def
  by (simp add: noHyphenPair_sym successively_dropWhile)

lemma generateSlug_no_double: "successively noHyphenPair (generateSlug t)"
  by (simp add: generateSlug_def successively_take successively_trimHyphens
      successively_collapseSeps)

lemma trimHyphens_prefix:
  "dropWhile isHyphen s = trimHyphens s @ rev (takeWhile isHyphen (rev (dropWhile isHyphen s)))"
proof -
  let ?y = "dropWhile isHyphen s"
  show ?thesis unfolding trimHyphens_def
    by (metis rev_append rev_rev_ident takeWhile_dropWhile_id)
qed

lemma trimHyphens_hd: "trimHyphens s \<noteq> [] \<Longrightarrow> \<not> isHyphen (hd (trimHyphens s))"
proof -
  assume ne: "trimHyphens s \<noteq> []"
  let ?y = "dropWhile isHyphen s"
  have "?y \<noteq> []" using ne unfolding trimHyphens_def
    by (metis dropWhile.simps(1) rev.simps(1))
  then have "\<not> isHyphen (hd ?y)" by (rule hd_dropWhile)
  moreover have "hd ?y = hd (trimHyphens s)"
    using ne trimHyphens_prefix [of s] by (metis hd_append2)
  ultimately show ?thesis by simp
qed

lemma trimHyphens_last: "trimHyphens s \<noteq> [] \<Longrightarrow> \<not> isHyphen (last (trimHyphens s))"
proof -
  assume ne: "trimHyphens s \<noteq> []"
  let ?z = "dropWhile isHyphen (rev (dropWhile isHyphen s))"
  have "?z \<noteq> []" using ne by (simp add: trimHyphens_def)
  then have "\<not> isHyphen (hd ?z)" by (rule hd_dropWhile)
  moreover have "last (trimHyphens s) = hd ?z"
    using \<open>?z \<noteq> []\<close> by (simp add: trimHyphens_def last_rev)
  ultimately show ?thesis by simp
qed

lemma generateSlug_hd: "generateSlug t \<noteq> [] \<Longrightarrow> \<not> isHyphen (hd (generateSlug t))"
  by (auto simp: generateSlug_def trimHyphens_hd split: if_splits)

lemma generateSlug_last:
  "generateSlug t \<noteq> [] \<Longrightarrow> length (generateSlug t) < 50 \<Longrightarrow> \<not> isHyphen (last (generateSlug t))"
proof -
  assume ne: "generateSlug t \<noteq> []" and len: "length (generateSlug t) < 50"
  let ?u = "trimHyphens (collapseSeps (stripSpecial (toLowerCase t)))"
  have g: "generateSlug t = take 50 ?u" using ne by (simp add: generateSlug_def split: if_splits)
  with len have "length ?u < 50" by (simp add: min_def split: if_splits)
  with g have "generateSlug t = ?u" by simp
  with ne show ?thesis using trimHyphens_last by metis
qed



lemma collapseRuns_sep:
  "isSep c \<Longrightarrow> collapseRuns (c # cs) = CHR ''-'' # collapseRuns (dropWhile isSep cs)"
  by (induction cs arbitrary: c) auto

lemma collapseRuns_nonsep: "\<not> isSep c \<Longrightarrow> collapseRuns (c # cs) = c # collapseRuns cs"
  by (cases cs) auto

lemma collapseSeps_eq_collapseRuns: "collapseSeps s = collapseRuns s"
  by (induction s rule: collapseSeps.induct)
     (auto simp: collapseRuns_sep collapseRuns_nonsep)

lemma dropLeadingHyphens_eq: "dropLeadingHyphens s = dropWhile isHyphen s"
  by (induction s) (auto simp: isHyphen_def)

lemma dropTrailingHyphens_eq: "dropTrailingHyphens s = rev (dropWhile isHyphen (rev s))"
  by (induction s) (auto simp: isHyphen_def dropWhile_append Let_def)

lemma generateSlug_eq_deriveSlug: "generateSlug t = deriveSlug t"
  by (simp add: generateSlug_def deriveSlug_def trimHyphens_def stripSpecial_def toLowerCase_def
      collapseSeps_eq_collapseRuns dropLeadingHyphens_eq dropTrailingHyphens_eq isHyphen_def)

text \<open>
  Claim C6. \<open>generateSlug\<close> (the specification's \<open>deriveSlug\<close>) lower-cases its input, strips
  the characters outside word characters, white space and hyphen, collapses runs of white
  space, underscores and hyphens into single hyphens, trims leading and trailing hyphens and
  truncates to 50 characters: it agrees with the stage-by-stage reading \<open>deriveSlug\<close> on every
  title; its result has at most 50 characters, all of them lower-case letters, digits or
  hyphens, never two hyphens in a row, no hyphen in front, and no hyphen at the end unless
  the truncation cut there. The two examples evaluate as stated.
\<close>

theorem generateSlug_correct:
  "generateSlug t = deriveSlug t
   \<and> length (generateSlug t) \<le> 50
   \<and> (\<forall>c \<in> set (generateSlug t). isLower c \<or> isDigit c \<or> isHyphen c)
   \<and> successively noHyphenPair (generateSlug t)
   \<and> (generateSlug t \<noteq> [] \<longrightarrow> \<not> isHyphen (hd (generateSlug t)))
   \<and> (generateSlug t \<noteq> [] \<and> length (generateSlug t) < 50
        \<longrightarrow> \<not> isHyphen (last (generateSlug t)))
   \<and> generateSlug ''Hello, World!  Test_123'' = ''hello-world-test-123''
   \<and> generateSlug ''---'' = []"
proof -
  have "length (generateSlug t) \<le> 50" by (simp add: generateSlug_def)
  moreover have "generateSlug ''Hello, World!  Test_123'' = ''hello-world-test-123''"
    by code_simp
  moreover have "generateSlug ''---'' = []" by code_simp
  ultimately show ?thesis
    using generateSlug_eq_deriveSlug generateSlug_chars generateSlug_no_double
      generateSlug_hd generateSlug_last by blast
qed

theorem generateSlug_correct_witness:
  "generateSlug ''  My_Post -- Title!  '' = ''my-post-title''
   \<and> generateSlug ''  My_Post -- Title!  '' = deriveSlug ''  My_Post -- Title!  ''
   \<and> generateSlug ''  My_Post -- Title!  '' \<noteq> []
   \<and> length (generateSlug ''  My_Post -- Title!  '') < 50
   \<and> \<not> isHyphen (hd (generateSlug ''  My_Post -- Title!  ''))
   \<and> \<not> isHyphen (last (generateSlug ''  My_Post -- Title!  ''))"
proof -
  have v: "generateSlug ''  My_Post -- Title!  '' = ''my-post-title''" by code_simp
  then have "generateSlug ''  My_Post -- Title!  '' \<noteq> []"
    and "length (generateSlug ''  My_Post -- Title!  '') < 50" by simp_all
  with v show ?thesis using generateSlug_correct [of "''  My_Post -- Title!  ''"] by blast
qed

section \<open>Validation engine: properties\<close>

subsection \<open>Stripping both ends\<close>

lemma ends_decomp:
  "dropWhile P s = rev (dropWhile P (rev (dropWhile P s))) @ rev (takeWhile P (rev (dropWhile P s)))"
  by (metis rev_append rev_rev_ident takeWhile_dropWhile_id)

lemma ends_hd:
  assumes "rev (dropWhile P (rev (dropWhile P s))) \<noteq> []"
  shows "\<not> P (hd (rev (dropWhile P (rev (dropWhile P s)))))"
proof -
  let ?y = "dropWhile P s"
  have "?y \<noteq> []" using assms by (metis dropWhile.simps(1) rev.simps(1))
  then have "\<not> P (hd ?y)" by (rule hd_dropWhile)
  moreover have "hd ?y = hd (rev (dropWhile P (rev ?y)))"
    using assms ends_decomp [of P s] by (metis hd_append2)
  ultimately show ?thesis by simp
qed

lemma ends_last:
  assumes "rev (dropWhile P (rev (dropWhile P s))) \<noteq> []"
  shows "\<not> P (last (rev (dropWhile P (rev (dropWhile P s)))))"
proof -
  let ?z = "dropWhile P (rev (dropWhile P s))"
  have ne: "?z \<noteq> []" using assms by simp
  then have "\<not> P (hd ?z)" by (rule hd_dropWhile)
  moreover have "last (rev ?z) = hd ?z" using ne by (simp add: last_rev)
  ultimately show ?thesis by simp
qed

lemma ends_fixed:
  assumes "t = [] \<or> (\<not> P (hd t) \<and> \<not> P (last t))"
  shows "rev (dropWhile P (rev (dropWhile P t))) = t"
proof (cases "t = []")
  case True
  then show ?thesis by simp
next
  case False
  with assms have h: "\<not> P (hd t)" and l: "\<not> P (last t)" by auto
  from False h have "dropWhile P t = t" by (cases t) auto
  moreover from False l have "dropWhile P (rev t) = rev t"
    by (cases "rev t") (auto simp: last_rev hd_rev)
  ultimately show ?thesis by simp
qed

lemma ends_length: "length (rev (dropWhile P (rev (dropWhile P s)))) \<le> length s"
proof -
  have "length (dropWhile P (rev (dropWhile P s))) \<le> length (rev (dropWhile P s))"
    by (rule length_dropWhile_le)
  moreover have "length (dropWhile P s) \<le> length s" by (rule length_dropWhile_le)
  ultimately show ?thesis by simp
qed

lemma trim_idem: "trim (trim s) = trim s"
  unfolding trim_def
  by (rule ends_fixed) (metis ends_hd ends_last)

lemma length_trim: "length (trim s) \<le> length s"
  unfolding trim_def by (rule ends_length)

lemma trim_no_space: "\<forall>c \<in> set s. \<not> isSpace c \<Longrightarrow> trim s = s"
  unfolding trim_def
  by (rule ends_fixed) (metis hd_in_set last_in_set)

subsection \<open>Checkers\<close>

lemma checkText_Some:
  assumes "checkText k n x = Inr (Some y)"
  shows "\<exists>s. x = JStr s \<and> length s \<le> n \<and> y = JStr (trim s)"
  using assms by (auto simp: checkText_def split: jsval.splits if_splits)

lemma stable_checkText: "stableCheck (checkText k n)"
proof -
  have "checkText k n y = Inr (Some y)" if "checkText k n x = Inr (Some y)" for x y
  proof -
    from that obtain s where s: "length s \<le> n" "y = JStr (trim s)"
      using checkText_Some by blast
    have "length (trim s) \<le> n" using length_trim [of s] s(1) by simp
    then show ?thesis using s(2) by (simp add: checkText_def trim_idem)
  qed
  moreover have "checkText k n JUndefined = Inr None" by (simp add: checkText_def)
  ultimately show ?thesis unfolding stableCheck_def by blast
qed

lemma tagEntry_Some:
  assumes "tagEntry cfg t = Inr (Some o')"
  shows "tagEntry cfg (JStr o') = Inr (Some o')"
proof -
  from assms obtain s where s: "t = JStr s" "o' = trim s" "trim s \<noteq> []"
    "length (trim s) \<le> maxTagLength cfg"
    by (auto simp: tagEntry_def Let_def split: jsval.splits if_splits)
  then show ?thesis by (simp add: tagEntry_def trim_idem)
qed

lemma mapTags_dropNulls:
  "mapTags cfg ts = Inr rs \<Longrightarrow> mapTags cfg (map JStr (dropNulls rs)) = Inr (map Some (dropNulls rs))"
proof (induction ts arbitrary: rs)
  case Nil
  then show ?case by simp
next
  case (Cons t ts)
  from Cons.prems obtain r rs' where r: "tagEntry cfg t = Inr r"
    and rs': "mapTags cfg ts = Inr rs'" and eq: "rs = r # rs'"
    by (auto simp: bindE_def split: sum.splits)
  have ih: "mapTags cfg (map JStr (dropNulls rs')) = Inr (map Some (dropNulls rs'))"
    using Cons.IH rs' by simp
  show ?case
  proof (cases r)
    case None
    with eq ih show ?thesis by simp
  next
    case (Some o')
    with r have "tagEntry cfg (JStr o') = Inr (Some o')" by (simp add: tagEntry_Some)
    with Some eq ih show ?thesis by (simp add: bindE_def)
  qed
qed

lemma mapTags_length: "mapTags cfg ts = Inr rs \<Longrightarrow> length rs = length ts"
  by (induction ts arbitrary: rs) (auto simp: bindE_def split: sum.splits)

lemma dropNulls_length: "length (dropNulls rs) \<le> length rs"
  by (induction rs rule: dropNulls.induct) auto

lemma dropNulls_Some: "dropNulls (map Some xs) = xs"
  by (induction xs) auto

lemma checkTags_Some:
  assumes "checkTags cfg x = Inr (Some y)"
  shows "\<exists>ts rs. x = JArr ts \<and> length ts \<le> maxTagCount cfg \<and> mapTags cfg ts = Inr rs
           \<and> y = JArr (map JStr (dropNulls rs)) \<and> length (dropNulls rs) \<le> maxTagCount cfg"
proof -
  from assms obtain ts rs where x: "x = JArr ts" and len: "length ts \<le> maxTagCount cfg"
    and m: "mapTags cfg ts = Inr rs"
    and y: "y = JArr (map JStr (take (maxTagCount cfg) (dropNulls rs)))"
    by (auto simp: checkTags_def bindE_def split: jsval.splits if_splits sum.splits)
  have "length (dropNulls rs) \<le> maxTagCount cfg"
    using dropNulls_length [of rs] mapTags_length [OF m] len by simp
  with x len m y show ?thesis by simp
qed

lemma stable_checkTags: "stableCheck (checkTags cfg)"
proof -
  have "checkTags cfg y = Inr (Some y)" if "checkTags cfg x = Inr (Some y)" for x y
  proof -
    from that obtain ts rs where m: "mapTags cfg ts = Inr rs"
      and y: "y = JArr (map JStr (dropNulls rs))"
      and len: "length (dropNulls rs) \<le> maxTagCount cfg"
      using checkTags_Some by blast
    from m have "mapTags cfg (map JStr (dropNulls rs)) = Inr (map Some (dropNulls rs))"
      by (rule mapTags_dropNulls)
    with y len show ?thesis by (simp add: checkTags_def bindE_def dropNulls_Some)
  qed
  moreover have "checkTags cfg JUndefined = Inr None" by (simp add: checkTags_def)
  ultimately show ?thesis unfolding stableCheck_def by blast
qed

lemma stable_checkUrl: "stableCheck (checkUrl urlProtocol k)"
proof -
  have "checkUrl urlProtocol k y = Inr (Some y)"
    if "checkUrl urlProtocol k x = Inr (Some y)" for x y
  proof -
    from that obtain s where "y = JStr (trim s)"
      and "trim s = [] \<or> isValidURL urlProtocol (trim s)"
      by (auto simp: checkUrl_def Let_def split: jsval.splits if_splits)
    then show ?thesis by (auto simp: checkUrl_def Let_def trim_idem)
  qed
  moreover have "checkUrl urlProtocol k JUndefined = Inr None" by (simp add: checkUrl_def)
  ultimately show ?thesis unfolding stableCheck_def by blast
qed

subsection \<open>Running a list of checks\<close>

lemma setField_cases:
  assumes "setField k chk data v = Inr v'"
  shows "(chk (getProp data k) = Inr None \<and> v' = v)
       \<or> (\<exists>x. chk (getProp data k) = Inr (Some x) \<and> v' = v(k \<mapsto> x))"
  using assms by (auto simp: setField_def split: sum.splits option.splits)

lemma runChecks_other:
  "runChecks cs data v0 = Inr v \<Longrightarrow> k \<notin> fst ` set cs \<Longrightarrow> v k = v0 k"
proof (induction cs arbitrary: v0)
  case Nil
  then show ?case by simp
next
  case (Cons c cs)
  obtain k' chk where c: "c = (k', chk)" by (cases c)
  from Cons.prems(1) c obtain v1 where s: "setField k' chk data v0 = Inr v1"
    and r: "runChecks cs data v1 = Inr v"
    by (auto simp: bindE_def split: sum.splits)
  from Cons.prems(2) c have "k \<noteq> k'" and "k \<notin> fst ` set cs" by auto
  with Cons.IH r have "v k = v1 k" by simp
  moreover from setField_cases [OF s] \<open>k \<noteq> k'\<close> have "v1 k = v0 k" by auto
  ultimately show ?case by simp
qed

lemma runChecks_dom: "runChecks cs data v0 = Inr v \<Longrightarrow> dom v \<subseteq> dom v0 \<union> fst ` set cs"
proof
  fix k assume r: "runChecks cs data v0 = Inr v" and k: "k \<in> dom v"
  show "k \<in> dom v0 \<union> fst ` set cs"
  proof (cases "k \<in> fst ` set cs")
    case True
    then show ?thesis by simp
  next
    case False
    with r have "v k = v0 k" by (rule runChecks_other)
    with k show ?thesis by auto
  qed
qed

lemma runChecks_key:
  "runChecks cs data v0 = Inr v \<Longrightarrow> distinct (map fst cs) \<Longrightarrow> (k, chk) \<in> set cs \<Longrightarrow>
   (chk (getProp data k) = Inr None \<and> v k = v0 k)
   \<or> (\<exists>x. chk (getProp data k) = Inr (Some x) \<and> v k = Some x)"
proof (induction cs arbitrary: v0)
  case Nil
  then show ?case by simp
next
  case (Cons c cs)
  obtain k' chk' where c: "c = (k', chk')" by (cases c)
  from Cons.prems(1) c obtain v1 where s: "setField k' chk' data v0 = Inr v1"
    and r: "runChecks cs data v1 = Inr v"
    by (auto simp: bindE_def split: sum.splits)
  from Cons.prems(2) c have notin: "k' \<notin> fst ` set cs" and d: "distinct (map fst cs)"
    by auto
  show ?case
  proof (cases "(k, chk) \<in> set cs")
    case True
    with notin have "k \<noteq> k'" by force
    with setField_cases [OF s] have "v1 k = v0 k" by auto
    with Cons.IH [OF r d True] show ?thesis by simp
  next
    case False
    with Cons.prems(3) c have kk: "k = k'" "chk = chk'" by auto
    from r notin have "v k' = v1 k'" by (rule runChecks_other)
    with setField_cases [OF s] kk show ?thesis by auto
  qed
qed

lemma runChecks_replay:
  assumes "\<And>k chk. (k, chk) \<in> set cs \<Longrightarrow> chk (getProp v k) = Inr (v k)"
  shows "runChecks cs v w = Inr (\<lambda>k. if k \<in> fst ` set cs \<and> v k \<noteq> None then v k else w k)"
  using assms
proof (induction cs arbitrary: w)
  case Nil
  then show ?case by simp
next
  case (Cons c cs)
  obtain k' chk' where c: "c = (k', chk')" by (cases c)
  have step: "chk' (getProp v k') = Inr (v k')" using Cons.prems c by simp
  let ?w1 = "case v k' of None \<Rightarrow> w | Some x \<Rightarrow> w(k' \<mapsto> x)"
  have s: "setField k' chk' v w = Inr ?w1"
    using step by (simp add: setField_def split: option.splits)
  have "runChecks cs v ?w1 =
          Inr (\<lambda>k. if k \<in> fst ` set cs \<and> v k \<noteq> None then v k else ?w1 k)"
    using Cons.IH Cons.prems by simp
  moreover have "(\<lambda>k. if k \<in> fst ` set cs \<and> v k \<noteq> None then v k else ?w1 k)
      = (\<lambda>k. if k \<in> fst ` set (c # cs) \<and> v k \<noteq> None then v k else w k)"
    using c by (auto simp: fun_eq_iff split: option.splits)
  ultimately show ?case using c s by (simp add: bindE_def)
qed

lemma runChecks_idem:
  assumes run: "runChecks cs data Map.empty = Inr v"
    and dist: "distinct (map fst cs)"
    and stable: "\<And>k chk. (k, chk) \<in> set cs \<Longrightarrow> stableCheck chk"
  shows "runChecks cs v Map.empty = Inr v"
proof -
  have again: "chk (getProp v k) = Inr (v k)" if mem: "(k, chk) \<in> set cs" for k chk
  proof -
    from runChecks_key [OF run dist mem]
    consider "chk (getProp data k) = Inr None" "v k = None"
      | x where "chk (getProp data k) = Inr (Some x)" "v k = Some x"
      by auto
    then show ?thesis
    proof cases
      case 1
      then show ?thesis using stable [OF mem] by (simp add: stableCheck_def getProp_def)
    next
      case 2
      then have "chk x = Inr (Some x)" using stable [OF mem] unfolding stableCheck_def by blast
      with 2 show ?thesis by (simp add: getProp_def)
    qed
  qed
  have "runChecks cs v Map.empty
          = Inr (\<lambda>k. if k \<in> fst ` set cs \<and> v k \<noteq> None then v k else Map.empty k)"
    using again by (rule runChecks_replay)
  moreover have "(\<lambda>k. if k \<in> fst ` set cs \<and> v k \<noteq> None then v k else Map.empty k) = v"
  proof
    fix k
    show "(if k \<in> fst ` set cs \<and> v k \<noteq> None then v k else Map.empty k) = v k"
      using runChecks_other [OF run, of k] by auto
  qed
  ultimately show ?thesis by simp
qed

lemma validateProfileData_runChecks:
  "validateProfileData urlProtocol cfg data = runChecks (profileChecks urlProtocol cfg) data Map.empty"
  by (simp add: validateProfileData_def profileChecks_def bindE_def split: sum.splits)

lemma validatePostData_runChecks:
  "validatePostData urlProtocol cfg data isUpdate
     = runChecks (postChecks urlProtocol cfg isUpdate) data Map.empty"
  by (simp add: validatePostData_def postChecks_def bindE_def split: sum.splits)

text \<open>
  Claim C7. For every partial profile input that passes validation, \<open>validateProfileData\<close>
  (the specification's \<open>validateProfileFields\<close>) is idempotent: validating its own output
  yields that same output.
\<close>

theorem validateProfileData_idempotent:
  assumes "validateProfileData urlProtocol cfg data = Inr v"
  shows "validateProfileData urlProtocol cfg v = Inr v"
proof -
  have "runChecks (profileChecks urlProtocol cfg) data Map.empty = Inr v"
    using assms by (simp add: validateProfileData_runChecks)
  moreover have "distinct (map fst (profileChecks urlProtocol cfg))"
    by (simp add: profileChecks_def)
  moreover have "stableCheck chk" if "(k, chk) \<in> set (profileChecks urlProtocol cfg)" for k chk
    using that stable_checkText stable_checkTags stable_checkUrl
    by (auto simp: profileChecks_def)
  ultimately have "runChecks (profileChecks urlProtocol cfg) v Map.empty = Inr v"
    by (rule runChecks_idem)
  then show ?thesis by (simp add: validateProfileData_runChecks)
qed

lemma example_trims:
  "trim ''  Ann  '' = ''Ann''" "trim '' hi '' = ''hi''" "trim '' a '' = ''a''"
  "trim ''  '' = []" "trim ''b'' = ''b''" "trim ''a'' = ''a''"
  "trim '' https://x.org/a.png '' = ''https://x.org/a.png''"
  by code_simp+

lemma example_profile_run:
  "validateProfileData exampleUrlProtocol APP_CONFIG exampleProfileInput = Inr exampleProfileOutput"
  by (simp add: validateProfileData_def exampleProfileInput_def exampleProfileOutput_def
      setField_def getProp_def checkText_def checkTags_def checkUrl_def tagEntry_def
      bindE_def APP_CONFIG_def example_trims isValidURL_def exampleUrlProtocol_def)

theorem validateProfileData_idempotent_witness:
  "validateProfileData exampleUrlProtocol APP_CONFIG exampleProfileInput = Inr exampleProfileOutput
   \<and> validateProfileData exampleUrlProtocol APP_CONFIG exampleProfileOutput = Inr exampleProfileOutput"
  using validateProfileData_idempotent [OF example_profile_run] example_profile_run by simp

lemma tags_of_valid:
  assumes run: "runChecks cs data Map.empty = Inr v"
    and dist: "distinct (map fst cs)"
    and mem: "(''tags'', checkTags cfg) \<in> set cs"
    and tags: "getProp data ''tags'' = JArr ts"
  shows "length ts \<le> maxTagCount cfg
       \<and> (\<exists>rs. mapTags cfg ts = Inr rs \<and> v ''tags'' = Some (JArr (map JStr (dropNulls rs)))
             \<and> length (dropNulls rs) \<le> maxTagCount cfg)"
proof -
  have "checkTags cfg (JArr ts) \<noteq> Inr None"
    by (auto simp: checkTags_def bindE_def split: sum.splits)
  with runChecks_key [OF run dist mem] tags
  obtain x where x: "checkTags cfg (JArr ts) = Inr (Some x)" "v ''tags'' = Some x"
    by auto
  from checkTags_Some [OF x(1)] x(2) show ?thesis by auto
qed

lemma profile_tags_of_valid:
  assumes "validateProfileData urlProtocol cfg data = Inr v" "getProp data ''tags'' = JArr ts"
  shows "length ts \<le> maxTagCount cfg
       \<and> (\<exists>rs. mapTags cfg ts = Inr rs \<and> v ''tags'' = Some (JArr (map JStr (dropNulls rs)))
             \<and> length (dropNulls rs) \<le> maxTagCount cfg)"
proof (rule tags_of_valid)
  show "runChecks (profileChecks urlProtocol cfg) data Map.empty = Inr v"
    using assms(1) by (simp add: validateProfileData_runChecks)
  show "distinct (map fst (profileChecks urlProtocol cfg))" by (simp add: profileChecks_def)
  show "(''tags'', checkTags cfg) \<in> set (profileChecks urlProtocol cfg)"
    by (simp add: profileChecks_def)
  show "getProp data ''tags'' = JArr ts" by (rule assms(2))
qed

lemma post_tags_of_valid:
  assumes "validatePostData urlProtocol cfg data isUpdate = Inr v"
    "getProp data ''tags'' = JArr ts"
  shows "length ts \<le> maxTagCount cfg
       \<and> (\<exists>rs. mapTags cfg ts = Inr rs \<and> v ''tags'' = Some (JArr (map JStr (dropNulls rs)))
             \<and> length (dropNulls rs) \<le> maxTagCount cfg)"
proof (rule tags_of_valid)
  show "runChecks (postChecks urlProtocol cfg isUpdate) data Map.empty = Inr v"
    using assms(1) by (simp add: validatePostData_runChecks)
  show "distinct (map fst (postChecks urlProtocol cfg isUpdate))" by (simp add: postChecks_def)
  show "(''tags'', checkTags cfg) \<in> set (postChecks urlProtocol cfg isUpdate)"
    by (simp add: postChecks_def)
  show "getProp data ''tags'' = JArr ts" by (rule assms(2))
qed

lemma profile_tags_error:
  assumes "getProp data ''tags'' = JArr ts" and "length ts > maxTagCount cfg"
    and "checkText ''displayName'' (maxDisplayNameLength cfg) (getProp data ''displayName'') = Inr r1"
    and "checkText ''nickname'' (maxDisplayNameLength cfg) (getProp data ''nickname'') = Inr r2"
    and "checkText ''bio'' 500 (getProp data ''bio'') = Inr r3"
  shows "validateProfileData urlProtocol cfg data
           = Inl (ValidationError (TooManyTags (maxTagCount cfg)))"
  using assms
  by (simp add: validateProfileData_def setField_def bindE_def checkTags_def
      split: option.splits)

lemma post_tags_error:
  assumes "getProp data ''tags'' = JArr ts" and "length ts > maxTagCount cfg"
    and "checkTitle cfg isUpdate (getProp data ''title'') = Inr q1"
    and "checkContentHtml isUpdate (getProp data ''contentHtml'') = Inr q2"
    and "checkStatus (getProp data ''status'') = Inr q3"
  shows "validatePostData urlProtocol cfg data isUpdate
           = Inl (ValidationError (TooManyTags (maxTagCount cfg)))"
  using assms
  by (simp add: validatePostData_def setField_def bindE_def checkTags_def
      split: option.splits)

text \<open>
  Claim C1, as the code has it. A tag sequence longer than the configured maximum count is
  never truncated: profile and post validation reject the whole input, with the tag-count
  error when nothing earlier in the input is rejected first. When validation succeeds on an
  input with a tag sequence, the sequence had at most the maximum count of entries and the
  result is its trimmed non-empty entries in order, so the final truncation removes nothing.
\<close>

theorem tags_over_max_rejected:
  "(getProp data ''tags'' = JArr ts \<and> length ts > maxTagCount cfg \<longrightarrow>
      (\<exists>e. validateProfileData urlProtocol cfg data = Inl e)
      \<and> (\<exists>e. validatePostData urlProtocol cfg data isUpdate = Inl e))
   \<and> (getProp data ''tags'' = JArr ts \<and> length ts > maxTagCount cfg
       \<and> checkText ''displayName'' (maxDisplayNameLength cfg) (getProp data ''displayName'')
           = Inr r1
       \<and> checkText ''nickname'' (maxDisplayNameLength cfg) (getProp data ''nickname'') = Inr r2
       \<and> checkText ''bio'' 500 (getProp data ''bio'') = Inr r3 \<longrightarrow>
      validateProfileData urlProtocol cfg data
        = Inl (ValidationError (TooManyTags (maxTagCount cfg))))
   \<and> (getProp data ''tags'' = JArr ts \<and> length ts > maxTagCount cfg
       \<and> checkTitle cfg isUpdate (getProp data ''title'') = Inr q1
       \<and> checkContentHtml isUpdate (getProp data ''contentHtml'') = Inr q2
       \<and> checkStatus (getProp data ''status'') = Inr q3 \<longrightarrow>
      validatePostData urlProtocol cfg data isUpdate
        = Inl (ValidationError (TooManyTags (maxTagCount cfg))))
   \<and> (getProp data ''tags'' = JArr ts
       \<and> (validateProfileData urlProtocol cfg data = Inr v
           \<or> validatePostData urlProtocol cfg data isUpdate = Inr v) \<longrightarrow>
      length ts \<le> maxTagCount cfg
      \<and> (\<exists>rs. mapTags cfg ts = Inr rs
            \<and> v ''tags'' = Some (JArr (map JStr (dropNulls rs)))
            \<and> length (dropNulls rs) \<le> maxTagCount cfg))"
proof (intro conjI impI)
  assume a: "getProp data ''tags'' = JArr ts \<and> length ts > maxTagCount cfg"
  show "\<exists>e. validateProfileData urlProtocol cfg data = Inl e"
  proof (cases "validateProfileData urlProtocol cfg data")
    case (Inl e)
    then show ?thesis by blast
  next
    case (Inr v')
    with a profile_tags_of_valid [of urlProtocol cfg data v' ts] show ?thesis by simp
  qed
  show "\<exists>e. validatePostData urlProtocol cfg data isUpdate = Inl e"
  proof (cases "validatePostData urlProtocol cfg data isUpdate")
    case (Inl e)
    then show ?thesis by blast
  next
    case (Inr v')
    with a post_tags_of_valid [of urlProtocol cfg data isUpdate v' ts] show ?thesis by simp
  qed
next
  assume "getProp data ''tags'' = JArr ts \<and> length ts > maxTagCount cfg
       \<and> checkText ''displayName'' (maxDisplayNameLength cfg) (getProp data ''displayName'')
           = Inr r1
       \<and> checkText ''nickname'' (maxDisplayNameLength cfg) (getProp data ''nickname'') = Inr r2
       \<and> checkText ''bio'' 500 (getProp data ''bio'') = Inr r3"
  then show "validateProfileData urlProtocol cfg data
        = Inl (ValidationError (TooManyTags (maxTagCount cfg)))"
    using profile_tags_error by blast
next
  assume "getProp data ''tags'' = JArr ts \<and> length ts > maxTagCount cfg
       \<and> checkTitle cfg isUpdate (getProp data ''title'') = Inr q1
       \<and> checkContentHtml isUpdate (getProp data ''contentHtml'') = Inr q2
       \<and> checkStatus (getProp data ''status'') = Inr q3"
  then show "validatePostData urlProtocol cfg data isUpdate
        = Inl (ValidationError (TooManyTags (maxTagCount cfg)))"
    using post_tags_error by blast
next
  assume b: "getProp data ''tags'' = JArr ts
       \<and> (validateProfileData urlProtocol cfg data = Inr v
           \<or> validatePostData urlProtocol cfg data isUpdate = Inr v)"
  then have "length ts \<le> maxTagCount cfg
      \<and> (\<exists>rs. mapTags cfg ts = Inr rs
            \<and> v ''tags'' = Some (JArr (map JStr (dropNulls rs)))
            \<and> length (dropNulls rs) \<le> maxTagCount cfg)"
    using profile_tags_of_valid post_tags_of_valid by blast
  then show "length ts \<le> maxTagCount cfg"
    and "\<exists>rs. mapTags cfg ts = Inr rs
            \<and> v ''tags'' = Some (JArr (map JStr (dropNulls rs)))
            \<and> length (dropNulls rs) \<le> maxTagCount cfg" by simp_all
qed

text \<open>
  Eleven valid tags under the configured maximum of ten: both validators fail on the length
  alone instead of truncating.
\<close>

theorem tags_over_max_counterexample:
  "length elevenTags > maxTagCount APP_CONFIG
   \<and> validateProfileData exampleUrlProtocol APP_CONFIG (Map.empty(''tags'' \<mapsto> JArr elevenTags))
       = Inl (ValidationError (TooManyTags 10))
   \<and> validatePostData exampleUrlProtocol APP_CONFIG (Map.empty(''tags'' \<mapsto> JArr elevenTags)) False
       = Inl (ValidationError (TooManyTags 10))"
  by (simp add: elevenTags_def APP_CONFIG_def validateProfileData_def validatePostData_def
      setField_def getProp_def checkText_def checkTags_def checkTitle_def checkContentHtml_def
      checkStatus_def bindE_def)

theorem tags_over_max_rejected_witness:
  "getProp (Map.empty(''tags'' \<mapsto> JArr elevenTags)) ''tags'' = JArr elevenTags
   \<and> length elevenTags > maxTagCount APP_CONFIG
   \<and> validateProfileData exampleUrlProtocol APP_CONFIG (Map.empty(''tags'' \<mapsto> JArr elevenTags))
       = Inl (ValidationError (TooManyTags (maxTagCount APP_CONFIG)))
   \<and> validatePostData exampleUrlProtocol APP_CONFIG (Map.empty(''tags'' \<mapsto> JArr elevenTags))
         False
       = Inl (ValidationError (TooManyTags (maxTagCount APP_CONFIG)))
   \<and> getProp exampleProfileInput ''tags'' = JArr [JStr '' a '', JStr ''  '', JStr ''b'']
   \<and> validateProfileData exampleUrlProtocol APP_CONFIG exampleProfileInput = Inr exampleProfileOutput
   \<and> exampleProfileOutput ''tags'' = Some (JArr [JStr ''a'', JStr ''b''])
   \<and> length [JStr '' a '', JStr ''  '', JStr ''b''] \<le> maxTagCount APP_CONFIG"
proof -
  let ?d = "Map.empty(''tags'' \<mapsto> JArr elevenTags) :: obj"
  have a: "getProp ?d ''tags'' = JArr elevenTags"
    by (simp add: getProp_def)
  have b: "length elevenTags > maxTagCount APP_CONFIG"
    by (simp add: elevenTags_def APP_CONFIG_def)
  have c: "getProp exampleProfileInput ''tags'' = JArr [JStr '' a '', JStr ''  '', JStr ''b'']"
    by (simp add: getProp_def exampleProfileInput_def)
  have d: "exampleProfileOutput ''tags'' = Some (JArr [JStr ''a'', JStr ''b''])"
    by (simp add: exampleProfileOutput_def)
  have p1: "checkText ''displayName'' (maxDisplayNameLength APP_CONFIG)
              (getProp ?d ''displayName'') = Inr None"
    and p2: "checkText ''nickname'' (maxDisplayNameLength APP_CONFIG)
              (getProp ?d ''nickname'') = Inr None"
    and p3: "checkText ''bio'' 500 (getProp ?d ''bio'') = Inr None"
    by (simp_all add: getProp_def checkText_def)
  have q1: "checkTitle APP_CONFIG False (getProp ?d ''title'') = Inr None"
    and q2: "checkContentHtml False (getProp ?d ''contentHtml'') = Inr None"
    and q3: "checkStatus (getProp ?d ''status'') = Inr None"
    by (simp_all add: getProp_def checkTitle_def checkContentHtml_def checkStatus_def)
  note t = tags_over_max_rejected [of ?d elevenTags APP_CONFIG exampleUrlProtocol False
      None None None None None None exampleProfileOutput]
  have e: "validateProfileData exampleUrlProtocol APP_CONFIG ?d
       = Inl (ValidationError (TooManyTags (maxTagCount APP_CONFIG)))"
    using t [THEN conjunct2, THEN conjunct1] a b p1 p2 p3 by blast
  have f: "validatePostData exampleUrlProtocol APP_CONFIG ?d False
       = Inl (ValidationError (TooManyTags (maxTagCount APP_CONFIG)))"
    using t [THEN conjunct2, THEN conjunct2, THEN conjunct1] a b q1 q2 q3 by blast
  note u = tags_over_max_rejected [of exampleProfileInput
      "[JStr '' a '', JStr ''  '', JStr ''b'']" APP_CONFIG exampleUrlProtocol False
      None None None None None None exampleProfileOutput]
  have g: "length [JStr '' a '', JStr ''  '', JStr ''b''] \<le> maxTagCount APP_CONFIG"
    using u [THEN conjunct2, THEN conjunct2, THEN conjunct2] c example_profile_run by blast
  show ?thesis using a b e f c example_profile_run d g by blast
qed

text \<open>
  Claim C2 at the input it fails on. In create mode an input without \<open>title\<close> and
  \<open>contentHtml\<close> passes validation, also in the shape \<open>createPost\<close> hands over for the
  empty object, while an empty title is refused: the required-field test sits inside the
  block that is skipped for an undefined property.
\<close>

theorem create_mode_absent_required_fields:
  "validatePostData urlProtocol cfg Map.empty False = Inr Map.empty
   \<and> validatePostData urlProtocol cfg (createPostArgs Map.empty) False
       = Inr (Map.empty(''status'' \<mapsto> JStr ''draft'', ''tags'' \<mapsto> JArr [],
                        ''coverUrl'' \<mapsto> JStr [], ''slug'' \<mapsto> JStr []))
   \<and> validatePostData urlProtocol cfg (Map.empty(''title'' \<mapsto> JStr [])) False
       = Inl (RequiredFieldMissing ''title'')"
  by (simp add: validatePostData_def createPostArgs_def setField_def getProp_def
      checkTitle_def checkContentHtml_def checkStatus_def checkTags_def checkUrl_def
      checkSlug_def bindE_def withDefault_def trim_def)

section \<open>Post resource manager: properties\<close>

subsection \<open>Reading posts\<close>

lemma getPostByIdOrSlug_hit:
  "map_of (posts w) key = Some d \<Longrightarrow>
   getPostByIdOrSlug key w = (Some (withId key d), w\<lparr>log := log w @ [DocGet key]\<rparr>)"
  by (simp add: getPostByIdOrSlug_def docGet_def)

lemma getPostByIdOrSlug_short:
  "map_of (posts w) key = None \<Longrightarrow> length key \<le> 20 \<Longrightarrow>
   getPostByIdOrSlug key w = (None, w\<lparr>log := log w @ [DocGet key]\<rparr>)"
  by (simp add: getPostByIdOrSlug_def docGet_def)

lemma getPostByIdOrSlug_fallback:
  "map_of (posts w) key = None \<Longrightarrow> length key > 20 \<Longrightarrow>
   getPostByIdOrSlug key w =
     (case find (\<lambda>(i, d). getProp d ''slug'' = JStr key) (posts w) of
        None \<Rightarrow> None | Some (i, d) \<Rightarrow> Some (withId i d),
      w\<lparr>log := log w @ [DocGet key, SlugQuery (JStr key)]\<rparr>)"
  by (simp add: getPostByIdOrSlug_def docGet_def slugQuery_def split: option.splits)

lemma getPostBySlug_eq:
  "getPostBySlug v w =
     (case find (\<lambda>(i, d). getProp d ''slug'' = v) (posts w) of
        None \<Rightarrow> None | Some (i, d) \<Rightarrow> Some (withId i d),
      w\<lparr>log := log w @ [SlugQuery v]\<rparr>)"
  by (simp add: getPostBySlug_def slugQuery_def split: option.splits)

lemma map_of_member: "(k, v) \<in> set ps \<Longrightarrow> map_of ps k \<noteq> None"
  by (induction ps) auto

lemma find_Some_sat: "find P xs = Some x \<Longrightarrow> x \<in> set xs \<and> P x"
  by (induction xs) (auto split: if_splits)

lemma find_unique_slug:
  assumes mem: "map_of ps pid = Some p" and slug: "getProp p ''slug'' = v"
    and dist: "distinct (map fst ps)"
    and uniq: "\<forall>(i, d) \<in> set ps. getProp d ''slug'' = v \<longrightarrow> i = pid"
  shows "find (\<lambda>(i, d). getProp d ''slug'' = v) ps = Some (pid, p)"
proof (cases "find (\<lambda>(i, d). getProp d ''slug'' = v) ps")
  case None
  from mem have "(pid, p) \<in> set ps" by (rule map_of_SomeD)
  with None slug show ?thesis by (auto simp: find_None_iff)
next
  case (Some a)
  obtain i d where a: "a = (i, d)" by (cases a)
  from Some a have "(i, d) \<in> set ps" and "getProp d ''slug'' = v"
    using find_Some_sat [of "\<lambda>(i, d). getProp d ''slug'' = v" ps a] by auto
  with uniq have "i = pid" by auto
  with \<open>(i, d) \<in> set ps\<close> dist have "map_of ps pid = Some d" by simp
  with mem have "d = p" by simp
  with Some a \<open>i = pid\<close> show ?thesis by simp
qed

lemma getProp_withId: "k \<noteq> ''id'' \<Longrightarrow> getProp (withId i d) k = getProp d k"
  by (simp add: getProp_def withId_def map_add_def split: option.splits)

text \<open>
  Claim C3, as the code has it. Called with a stored post's identifier, \<open>getPostByIdOrSlug\<close>
  returns that post after one document read, whatever the identifier's length. Called with
  the post's slug it returns the same post only through the fallback, which the code gates
  on the key's length: the slug is longer than 20 characters, is not itself a document
  identifier, and no other post carries it; the identifier is tried first and the slug query
  follows the miss. A key of 20 characters or fewer that is no document identifier resolves
  to nothing, and no slug query is issued for it.
\<close>

theorem getPostByIdOrSlug_resolves:
  assumes "map_of (posts w) pid = Some p"
  shows "fst (getPostByIdOrSlug pid w) = Some (withId pid p)
       \<and> log (snd (getPostByIdOrSlug pid w)) = log w @ [DocGet pid]
       \<and> (getProp p ''slug'' = JStr s \<and> length s > 20 \<and> map_of (posts w) s = None
            \<and> distinct (map fst (posts w))
            \<and> (\<forall>(i, d) \<in> set (posts w). getProp d ''slug'' = JStr s \<longrightarrow> i = pid)
          \<longrightarrow> fst (getPostByIdOrSlug s w) = Some (withId pid p)
            \<and> log (snd (getPostByIdOrSlug s w)) = log w @ [DocGet s, SlugQuery (JStr s)])
       \<and> (length s \<le> 20 \<and> map_of (posts w) s = None
          \<longrightarrow> fst (getPostByIdOrSlug s w) = None
            \<and> log (snd (getPostByIdOrSlug s w)) = log w @ [DocGet s])"
proof (intro conjI impI)
  show "fst (getPostByIdOrSlug pid w) = Some (withId pid p)"
    and "log (snd (getPostByIdOrSlug pid w)) = log w @ [DocGet pid]"
    using assms by (simp_all add: getPostByIdOrSlug_hit)
next
  assume h: "getProp p ''slug'' = JStr s \<and> length s > 20 \<and> map_of (posts w) s = None
            \<and> distinct (map fst (posts w))
            \<and> (\<forall>(i, d) \<in> set (posts w). getProp d ''slug'' = JStr s \<longrightarrow> i = pid)"
  then have h1: "getProp p ''slug'' = JStr s" and h2: "distinct (map fst (posts w))"
    and h3: "\<forall>(i, d) \<in> set (posts w). getProp d ''slug'' = JStr s \<longrightarrow> i = pid"
    by simp_all
  have f: "find (\<lambda>(i, d). getProp d ''slug'' = JStr s) (posts w) = Some (pid, p)"
    by (rule find_unique_slug [OF assms h1 h2 h3])
  from h f show "fst (getPostByIdOrSlug s w) = Some (withId pid p)"
    by (simp add: getPostByIdOrSlug_fallback)
  from h f show "log (snd (getPostByIdOrSlug s w)) = log w @ [DocGet s, SlugQuery (JStr s)]"
    by (simp add: getPostByIdOrSlug_fallback)
next
  assume h: "length s \<le> 20 \<and> map_of (posts w) s = None"
  then show "fst (getPostByIdOrSlug s w) = None"
    and "log (snd (getPostByIdOrSlug s w)) = log w @ [DocGet s]"
    by (simp_all add: getPostByIdOrSlug_short)
qed

lemma blog_lookups:
  "map_of (posts blogWorld) ''p1'' = Some examplePost"
  "map_of (posts blogWorld) ''p2'' = Some longSlugPost"
  "map_of (posts blogWorld) ''p3'' = Some othersPost"
  "map_of (posts blogWorld) ''my-post'' = None"
  "map_of (posts blogWorld) ''a-long-slug-for-the-second-post'' = None"
  "map_of (posts blogWorld) ''no-such-post'' = None"
  "distinct (map fst (posts blogWorld))"
  by (simp_all add: blogWorld_def)

lemma blog_slugs:
  "getProp examplePost ''slug'' = JStr ''my-post''"
  "getProp longSlugPost ''slug'' = JStr ''a-long-slug-for-the-second-post''"
  "getProp othersPost ''slug'' = JStr ''their-post''"
  by (simp_all add: getProp_def examplePost_def longSlugPost_def othersPost_def)

lemma blog_authors:
  "getProp examplePost ''authorId'' = JStr (uid adminUser)"
  "getProp longSlugPost ''authorId'' = JStr (uid adminUser)"
  "getProp othersPost ''authorId'' = JStr ''someone-else''"
  by (simp_all add: getProp_def examplePost_def longSlugPost_def othersPost_def adminUser_def)

text \<open>
  A stored post with the identifier \<open>p1\<close> and the distinct slug \<open>my-post\<close>: the lookup by
  identifier returns it, the lookup by slug returns nothing, the slug being shorter than
  21 characters.
\<close>

theorem getPostByIdOrSlug_short_slug_counterexample:
  "map_of (posts blogWorld) ''p1'' = Some examplePost
   \<and> length ''p1'' \<le> 20
   \<and> getProp examplePost ''slug'' = JStr ''my-post''
   \<and> fst (getPostByIdOrSlug ''p1'' blogWorld) = Some (withId ''p1'' examplePost)
   \<and> fst (getPostByIdOrSlug ''my-post'' blogWorld) = None"
  by (simp add: blog_lookups blog_slugs getPostByIdOrSlug_hit getPostByIdOrSlug_short)

theorem getPostByIdOrSlug_resolves_witness:
  "map_of (posts blogWorld) ''p2'' = Some longSlugPost
   \<and> fst (getPostByIdOrSlug ''p2'' blogWorld) = Some (withId ''p2'' longSlugPost)
   \<and> fst (getPostByIdOrSlug ''a-long-slug-for-the-second-post'' blogWorld)
       = Some (withId ''p2'' longSlugPost)
   \<and> log (snd (getPostByIdOrSlug ''a-long-slug-for-the-second-post'' blogWorld))
       = [DocGet ''a-long-slug-for-the-second-post'',
          SlugQuery (JStr ''a-long-slug-for-the-second-post'')]"
proof -
  have u: "\<forall>(i, d) \<in> set (posts blogWorld).
             getProp d ''slug'' = JStr ''a-long-slug-for-the-second-post'' \<longrightarrow> i = ''p2''"
    by (simp add: blogWorld_def blog_slugs)
  have l: "length ''a-long-slug-for-the-second-post'' > 20" by simp
  have e: "log blogWorld = []" by (simp add: blogWorld_def)
  from getPostByIdOrSlug_resolves [OF blog_lookups(2), of "''a-long-slug-for-the-second-post''"]
    u l e blog_lookups blog_slugs
  show ?thesis by simp
qed

lemma alnum_not_space: "isAlnum c \<Longrightarrow> \<not> isSpace c"
  by (auto simp: isAlnum_def isLower_def isUpper_def isDigit_def isSpace_def Let_def)

lemma hyphen_not_space: "isHyphen c \<Longrightarrow> \<not> isSpace c"
  by (simp add: isHyphen_def isSpace_def)

lemma isValidSlug_trim: "isValidSlug s \<Longrightarrow> trim s = s"
proof (rule trim_no_space)
  assume "isValidSlug s"
  then have "\<forall>c \<in> set s. isAlnum c \<or> isHyphen c"
    by (simp add: isValidSlug_def list_all_iff)
  then show "\<forall>c \<in> set s. \<not> isSpace c"
    using alnum_not_space hyphen_not_space by blast
qed

lemma validated_slug:
  assumes "validatePostData urlProtocol cfg data isUpdate = Inr v"
    and "getProp data ''slug'' = JStr s"
  shows "getProp v ''slug'' = JStr (trim s)"
proof -
  have run: "runChecks (postChecks urlProtocol cfg isUpdate) data Map.empty = Inr v"
    using assms(1) by (simp add: validatePostData_runChecks)
  have dist: "distinct (map fst (postChecks urlProtocol cfg isUpdate))"
    by (simp add: postChecks_def)
  have mem: "(''slug'', checkSlug) \<in> set (postChecks urlProtocol cfg isUpdate)"
    by (simp add: postChecks_def)
  have "checkSlug (JStr s) \<noteq> Inr None" by (simp add: checkSlug_def Let_def)
  with runChecks_key [OF run dist mem] assms(2)
  obtain x where "checkSlug (JStr s) = Inr (Some x)" "v ''slug'' = Some x" by auto
  then show ?thesis by (auto simp: checkSlug_def Let_def getProp_def split: if_splits)
qed

lemma createPostArgs_slug:
  "getProp input ''slug'' = JStr s \<Longrightarrow> getProp (createPostArgs input) ''slug'' = JStr s"
  by (simp add: createPostArgs_def getProp_def withDefault_def)

lemma createPost_conflict:
  assumes "requireAdmin session = Inr usr"
    and "validatePostData urlProtocol cfg (createPostArgs input) False = Inr v"
    and "getProp v ''slug'' = JStr s" and "s \<noteq> []"
    and "find (\<lambda>(i, d). getProp d ''slug'' = JStr s) (posts w) = Some a"
  shows "createPost session urlProtocol cfg input newId tc tu w
           = (Inl SlugConflict, w\<lparr>log := log w @ [SlugQuery (JStr s)]\<rparr>)"
  using assms by (simp add: createPost_def getPostBySlug_eq split: prod.splits)

lemma createPost_free:
  assumes "requireAdmin session = Inr usr"
    and "validatePostData urlProtocol cfg (createPostArgs input) False = Inr v"
    and "getProp v ''slug'' = JStr s" and "s \<noteq> []"
    and "find (\<lambda>(i, d). getProp d ''slug'' = JStr s) (posts w) = None"
  shows "createPost session urlProtocol cfg input newId tc tu w
           = (Inr (withId newId (v(''authorId'' \<mapsto> JStr (uid usr),
                                    ''createdAt'' \<mapsto> JTime tc, ''updatedAt'' \<mapsto> JTime tu))),
              docAdd newId (v(''authorId'' \<mapsto> JStr (uid usr),
                              ''createdAt'' \<mapsto> JTime tc, ''updatedAt'' \<mapsto> JTime tu))
                (w\<lparr>log := log w @ [SlugQuery (JStr s)]\<rparr>))"
  using assms by (simp add: createPost_def getPostBySlug_eq Let_def)

lemma docAdd_lookup: "map_of (posts (docAdd newId d w)) newId = Some d"
proof -
  have "map_of (map (\<lambda>(i, old). if i = newId then (i, d) else (i, old)) ps) newId = Some d"
    if "map_of ps newId = Some y" for ps :: "(string \<times> obj) list" and y
    using that by (induction ps) (auto split: if_splits)
  then show ?thesis by (auto simp: docAdd_def map_add_def)
qed

lemma deletePost_posts:
  assumes "deletePost session2 pid w = (Inr True, wd)" and "map_of (posts w) pid = Some p"
  shows "posts wd = filter (\<lambda>(i, d). i \<noteq> pid) (posts w)"
  using assms
  by (auto simp: deletePost_def getPostByIdOrSlug_hit docDelete_def
      split: sum.splits if_splits)

lemma find_after_delete:
  assumes "\<forall>(i, d) \<in> set ps. getProp d ''slug'' = v \<longrightarrow> i = pid"
  shows "find (\<lambda>(i, d). getProp d ''slug'' = v) (filter (\<lambda>(i, d). i \<noteq> pid) ps) = None"
  using assms by (auto simp: find_None_iff)

text \<open>
  Claim C4, as the code has it. An admin's \<open>createPost\<close> with an explicit well-formed slug,
  on otherwise valid fields, where a stored post carries that slug: the call fails with
  \<open>SlugConflict\<close>, and the store is as before but for the logged slug query (nothing is
  written). On the state that \<open>deletePost\<close> of the conflicting post leaves, the same call
  succeeds when that post was the only one with the slug: it returns the stored record with
  the generated identifier, and the record is in the store under that identifier. When another
  post carries the slug too, the call fails with \<open>SlugConflict\<close> again.
\<close>

theorem createPost_slug_conflict:
  assumes admin: "requireAdmin session = Inr usr"
    and slug: "getProp input ''slug'' = JStr s" and wf: "isValidSlug s"
    and valid: "validatePostData urlProtocol cfg (createPostArgs input) False = Inr v"
    and existing: "(pid, p) \<in> set (posts w)" and pslug: "getProp p ''slug'' = JStr s"
  shows "createPost session urlProtocol cfg input newId tc tu w
           = (Inl SlugConflict, w\<lparr>log := log w @ [SlugQuery (JStr s)]\<rparr>)
       \<and> posts (snd (createPost session urlProtocol cfg input newId tc tu w)) = posts w
       \<and> getProp v ''slug'' = JStr s
       \<and> ((\<forall>(i, d) \<in> set (posts w). getProp d ''slug'' = JStr s \<longrightarrow> i = pid)
            \<and> deletePost session2 pid w = (Inr True, wd) \<longrightarrow>
          posts wd = filter (\<lambda>(i, d). i \<noteq> pid) (posts w)
          \<and> fst (createPost session urlProtocol cfg input newId tc tu wd)
              = Inr (withId newId (v(''authorId'' \<mapsto> JStr (uid usr),
                                     ''createdAt'' \<mapsto> JTime tc, ''updatedAt'' \<mapsto> JTime tu)))
          \<and> map_of (posts (snd (createPost session urlProtocol cfg input newId tc tu wd))) newId
              = Some (v(''authorId'' \<mapsto> JStr (uid usr),
                        ''createdAt'' \<mapsto> JTime tc, ''updatedAt'' \<mapsto> JTime tu)))
       \<and> ((other, q) \<in> set (posts w) \<and> other \<noteq> pid \<and> getProp q ''slug'' = JStr s
            \<and> deletePost session2 pid w = (Inr True, wd) \<longrightarrow>
          createPost session urlProtocol cfg input newId tc tu wd
            = (Inl SlugConflict, wd\<lparr>log := log wd @ [SlugQuery (JStr s)]\<rparr>))"
proof -
  have ne: "s \<noteq> []" using wf by (simp add: isValidSlug_def)
  have vs: "getProp v ''slug'' = JStr s"
    using validated_slug [OF valid createPostArgs_slug [OF slug]] isValidSlug_trim [OF wf]
    by simp
  have carried: "\<exists>a. find (\<lambda>(i, d). getProp d ''slug'' = JStr s) ps = Some a"
    if "(k, d0) \<in> set ps" and "getProp d0 ''slug'' = JStr s"
    for ps :: "(string \<times> obj) list" and k d0
  proof (cases "find (\<lambda>(i, d). getProp d ''slug'' = JStr s) ps")
    case None
    with that show ?thesis by (auto simp: find_None_iff)
  next
    case (Some a)
    then show ?thesis by blast
  qed
  from carried [OF existing pslug]
  obtain a where f: "find (\<lambda>(i, d). getProp d ''slug'' = JStr s) (posts w) = Some a"
    by blast
  have c: "createPost session urlProtocol cfg input newId tc tu w
           = (Inl SlugConflict, w\<lparr>log := log w @ [SlugQuery (JStr s)]\<rparr>)"
    by (rule createPost_conflict [OF admin valid vs ne f])
  from existing obtain p' where stored: "map_of (posts w) pid = Some p'"
    using map_of_member by fastforce
  have after: "posts wd = filter (\<lambda>(i, d). i \<noteq> pid) (posts w)
          \<and> fst (createPost session urlProtocol cfg input newId tc tu wd)
              = Inr (withId newId (v(''authorId'' \<mapsto> JStr (uid usr),
                                     ''createdAt'' \<mapsto> JTime tc, ''updatedAt'' \<mapsto> JTime tu)))
          \<and> map_of (posts (snd (createPost session urlProtocol cfg input newId tc tu wd))) newId
              = Some (v(''authorId'' \<mapsto> JStr (uid usr),
                        ''createdAt'' \<mapsto> JTime tc, ''updatedAt'' \<mapsto> JTime tu))"
    if uniq: "\<forall>(i, d) \<in> set (posts w). getProp d ''slug'' = JStr s \<longrightarrow> i = pid"
      and deleted: "deletePost session2 pid w = (Inr True, wd)"
  proof -
    have d: "posts wd = filter (\<lambda>(i, d). i \<noteq> pid) (posts w)"
      by (rule deletePost_posts [OF deleted stored])
    have g: "find (\<lambda>(i, d). getProp d ''slug'' = JStr s) (posts wd) = None"
      unfolding d by (rule find_after_delete [OF uniq])
    note ok = createPost_free [OF admin valid vs ne g, of newId tc tu]
    show ?thesis using d ok by (simp add: docAdd_lookup)
  qed
  have again: "createPost session urlProtocol cfg input newId tc tu wd
            = (Inl SlugConflict, wd\<lparr>log := log wd @ [SlugQuery (JStr s)]\<rparr>)"
    if mem: "(other, q) \<in> set (posts w)" and diff: "other \<noteq> pid"
      and qslug: "getProp q ''slug'' = JStr s"
      and deleted: "deletePost session2 pid w = (Inr True, wd)"
  proof -
    have d: "posts wd = filter (\<lambda>(i, d). i \<noteq> pid) (posts w)"
      by (rule deletePost_posts [OF deleted stored])
    have "(other, q) \<in> set (posts wd)" using mem diff by (simp add: d)
    from carried [OF this qslug]
    obtain b where "find (\<lambda>(i, d). getProp d ''slug'' = JStr s) (posts wd) = Some b"
      by blast
    then show ?thesis by (rule createPost_conflict [OF admin valid vs ne])
  qed
  show ?thesis using c vs after again by simp
qed

lemma admin_session: "requireAdmin (Some adminUser) = Inr adminUser"
  by (simp add: requireAdmin_def requireAuth_def waitForAuthInit_def isAdmin_def bindE_def
      adminUser_def ADMIN_UIDS_def)

lemma more_trims:
  "trim '' Another '' = ''Another''" "trim ''<p>Again</p>'' = ''<p>Again</p>''"
  "trim ''my-post'' = ''my-post''" "trim [] = []" "trim '' Renamed '' = ''Renamed''"
  by code_simp+

lemma my_post_valid: "isValidSlug ''my-post''"
  by code_simp

lemma newPost_validates:
  "validatePostData exampleUrlProtocol APP_CONFIG (createPostArgs newPostInput) False
     = Inr newPostValidated"
  by (simp add: validatePostData_def createPostArgs_def newPostInput_def newPostValidated_def
      setField_def getProp_def withDefault_def checkTitle_def checkContentHtml_def
      checkStatus_def checkTags_def checkUrl_def checkSlug_def bindE_def APP_CONFIG_def
      more_trims my_post_valid)

lemma delete_p1: "fst (deletePost (Some adminUser) ''p1'' blogWorld) = Inr True"
  by (simp add: deletePost_def admin_session getPostByIdOrSlug_hit [OF blog_lookups(1)]
      getProp_withId blog_authors)

lemma twin_slug: "getProp twinPost ''slug'' = JStr ''my-post''"
  by (simp add: getProp_def twinPost_def)

lemma twin_lookup: "map_of (posts twinWorld) ''p1'' = Some examplePost"
  by (simp add: twinWorld_def)

lemma twin_delete:
  "deletePost (Some adminUser) ''p1'' twinWorld
     = (Inr True, docDelete ''p1'' (twinWorld\<lparr>log := log twinWorld @ [DocGet ''p1'']\<rparr>))"
  by (simp add: deletePost_def admin_session getPostByIdOrSlug_hit [OF twin_lookup]
      getProp_withId blog_authors)

theorem createPost_slug_conflict_witness:
  "requireAdmin (Some adminUser) = Inr adminUser
   \<and> isValidSlug ''my-post''
   \<and> getProp examplePost ''slug'' = JStr ''my-post''
   \<and> fst (deletePost (Some adminUser) ''p1'' blogWorld) = Inr True
   \<and> fst (createPost (Some adminUser) exampleUrlProtocol APP_CONFIG newPostInput ''p4'' 10 11
            blogWorld) = Inl SlugConflict
   \<and> posts (snd (createPost (Some adminUser) exampleUrlProtocol APP_CONFIG newPostInput ''p4''
                   10 11 blogWorld)) = posts blogWorld
   \<and> fst (createPost (Some adminUser) exampleUrlProtocol APP_CONFIG newPostInput ''p4'' 10 11
            (snd (deletePost (Some adminUser) ''p1'' blogWorld)))
       = Inr (withId ''p4'' (newPostValidated(''authorId'' \<mapsto> JStr (uid adminUser),
                ''createdAt'' \<mapsto> JTime 10, ''updatedAt'' \<mapsto> JTime 11)))
   \<and> (''p5'', twinPost) \<in> set (posts twinWorld)
   \<and> getProp twinPost ''slug'' = JStr ''my-post''
   \<and> fst (createPost (Some adminUser) exampleUrlProtocol APP_CONFIG newPostInput ''p4'' 10 11
            (snd (deletePost (Some adminUser) ''p1'' twinWorld))) = Inl SlugConflict"
proof -
  have s: "getProp newPostInput ''slug'' = JStr ''my-post''"
    by (simp add: getProp_def newPostInput_def)
  have m: "(''p1'', examplePost) \<in> set (posts blogWorld)"
    by (simp add: blogWorld_def)
  have u: "\<forall>(i, d) \<in> set (posts blogWorld). getProp d ''slug'' = JStr ''my-post'' \<longrightarrow> i = ''p1''"
    by (simp add: blogWorld_def blog_slugs)
  have d: "deletePost (Some adminUser) ''p1'' blogWorld
             = (Inr True, snd (deletePost (Some adminUser) ''p1'' blogWorld))"
    using delete_p1 by (metis prod.collapse)
  note t = createPost_slug_conflict [OF admin_session s my_post_valid newPost_validates
      m blog_slugs(1), of "''p4''" 10 11 "Some adminUser"
      "snd (deletePost (Some adminUser) ''p1'' blogWorld)" "''p3''" othersPost]
  have c: "fst (createPost (Some adminUser) exampleUrlProtocol APP_CONFIG newPostInput ''p4'' 10 11
            blogWorld) = Inl SlugConflict"
    using t [THEN conjunct1] by simp
  have n: "posts (snd (createPost (Some adminUser) exampleUrlProtocol APP_CONFIG newPostInput
                   ''p4'' 10 11 blogWorld)) = posts blogWorld"
    by (rule t [THEN conjunct2, THEN conjunct1])
  have a: "fst (createPost (Some adminUser) exampleUrlProtocol APP_CONFIG newPostInput ''p4'' 10 11
            (snd (deletePost (Some adminUser) ''p1'' blogWorld)))
       = Inr (withId ''p4'' (newPostValidated(''authorId'' \<mapsto> JStr (uid adminUser),
                ''createdAt'' \<mapsto> JTime 10, ''updatedAt'' \<mapsto> JTime 11)))"
    using t [THEN conjunct2, THEN conjunct2, THEN conjunct2, THEN conjunct1] u d by blast
  have m1: "(''p1'', examplePost) \<in> set (posts twinWorld)"
    and m5: "(''p5'', twinPost) \<in> set (posts twinWorld)"
    by (simp_all add: twinWorld_def)
  have ne: "''p5'' \<noteq> ''p1''" by simp
  have d5: "deletePost (Some adminUser) ''p1'' twinWorld
              = (Inr True, snd (deletePost (Some adminUser) ''p1'' twinWorld))"
    by (simp add: twin_delete)
  note t2 = createPost_slug_conflict [OF admin_session s my_post_valid newPost_validates
      m1 blog_slugs(1), of "''p4''" 10 11 "Some adminUser"
      "snd (deletePost (Some adminUser) ''p1'' twinWorld)" "''p5''" twinPost]
  have "createPost (Some adminUser) exampleUrlProtocol APP_CONFIG newPostInput ''p4'' 10 11
            (snd (deletePost (Some adminUser) ''p1'' twinWorld))
          = (Inl SlugConflict,
             (snd (deletePost (Some adminUser) ''p1'' twinWorld))
               \<lparr>log := log (snd (deletePost (Some adminUser) ''p1'' twinWorld))
                         @ [SlugQuery (JStr ''my-post'')]\<rparr>)"
    using t2 [THEN conjunct2, THEN conjunct2, THEN conjunct2, THEN conjunct2] m5 ne twin_slug d5
    by blast
  then have r: "fst (createPost (Some adminUser) exampleUrlProtocol APP_CONFIG newPostInput
                       ''p4'' 10 11 (snd (deletePost (Some adminUser) ''p1'' twinWorld)))
                  = Inl SlugConflict"
    by simp
  show ?thesis
    using admin_session my_post_valid blog_slugs(1) delete_p1 c n a m5 twin_slug r by blast
qed

text \<open>
  Two stored posts, \<open>p1\<close> and \<open>p5\<close>, carry the slug \<open>my-post\<close>. An admin's \<open>createPost\<close> with
  that slug is refused; the admin deletes \<open>p1\<close>; the same \<open>createPost\<close> on the state obtained
  is refused again, \<open>p5\<close> still carrying the slug.
\<close>

theorem createPost_duplicate_slug_counterexample:
  "requireAdmin (Some adminUser) = Inr adminUser
   \<and> getProp newPostInput ''slug'' = JStr ''my-post''
   \<and> map_of (posts twinWorld) ''p1'' = Some examplePost
   \<and> getProp examplePost ''slug'' = JStr ''my-post''
   \<and> fst (createPost (Some adminUser) exampleUrlProtocol APP_CONFIG newPostInput ''p4'' 10 11
            twinWorld) = Inl SlugConflict
   \<and> fst (deletePost (Some adminUser) ''p1'' twinWorld) = Inr True
   \<and> posts (snd (deletePost (Some adminUser) ''p1'' twinWorld)) = [(''p5'', twinPost)]
   \<and> fst (createPost (Some adminUser) exampleUrlProtocol APP_CONFIG newPostInput ''p4'' 10 11
            (snd (deletePost (Some adminUser) ''p1'' twinWorld))) = Inl SlugConflict"
proof -
  have s: "getProp newPostInput ''slug'' = JStr ''my-post''"
    by (simp add: getProp_def newPostInput_def)
  have vs: "getProp newPostValidated ''slug'' = JStr ''my-post''"
    by (simp add: getProp_def newPostValidated_def)
  have ne: "''my-post'' \<noteq> []" by simp
  have f1: "find (\<lambda>(i, d). getProp d ''slug'' = JStr ''my-post'') (posts twinWorld)
              = Some (''p1'', examplePost)"
    by (simp add: twinWorld_def blog_slugs)
  have c1: "fst (createPost (Some adminUser) exampleUrlProtocol APP_CONFIG newPostInput ''p4''
                   10 11 twinWorld) = Inl SlugConflict"
    by (simp add: createPost_conflict [OF admin_session newPost_validates vs ne f1])
  have d1: "fst (deletePost (Some adminUser) ''p1'' twinWorld) = Inr True"
    by (simp add: twin_delete)
  have "posts (snd (deletePost (Some adminUser) ''p1'' twinWorld))
          = filter (\<lambda>(i, d). i \<noteq> ''p1'') (posts twinWorld)"
    by (simp add: twin_delete docDelete_def)
  then have d2: "posts (snd (deletePost (Some adminUser) ''p1'' twinWorld))
                   = [(''p5'', twinPost)]"
    by (simp add: twinWorld_def)
  have f2: "find (\<lambda>(i, d). getProp d ''slug'' = JStr ''my-post'')
              (posts (snd (deletePost (Some adminUser) ''p1'' twinWorld)))
              = Some (''p5'', twinPost)"
    by (simp add: d2 twin_slug)
  have c2: "fst (createPost (Some adminUser) exampleUrlProtocol APP_CONFIG newPostInput ''p4''
                   10 11 (snd (deletePost (Some adminUser) ''p1'' twinWorld))) = Inl SlugConflict"
    by (simp add: createPost_conflict [OF admin_session newPost_validates vs ne f2])
  show ?thesis using admin_session s twin_lookup blog_slugs(1) c1 d1 d2 c2 by blast
qed

subsection \<open>Updating posts\<close>

lemma getPostByIdOrSlug_world:
  "\<exists>rs. list_all isRead rs \<and> snd (getPostByIdOrSlug key w) = w\<lparr>log := log w @ rs\<rparr>"
proof (cases "map_of (posts w) key")
  case (Some d)
  then have "snd (getPostByIdOrSlug key w) = w\<lparr>log := log w @ [DocGet key]\<rparr>"
    by (simp add: getPostByIdOrSlug_hit)
  moreover have "list_all isRead [DocGet key]" by simp
  ultimately show ?thesis by blast
next
  case None
  show ?thesis
  proof (cases "length key > 20")
    case True
    with None have "snd (getPostByIdOrSlug key w)
        = w\<lparr>log := log w @ [DocGet key, SlugQuery (JStr key)]\<rparr>"
      by (simp add: getPostByIdOrSlug_fallback)
    moreover have "list_all isRead [DocGet key, SlugQuery (JStr key)]" by simp
    ultimately show ?thesis by blast
  next
    case False
    with None have "snd (getPostByIdOrSlug key w) = w\<lparr>log := log w @ [DocGet key]\<rparr>"
      by (simp add: getPostByIdOrSlug_short)
    moreover have "list_all isRead [DocGet key]" by simp
    ultimately show ?thesis by blast
  qed
qed

lemma updatePost_world:
  "\<exists>rs. list_all isRead rs
     \<and> (snd (updatePost session urlProtocol cfg key patch now w) = w\<lparr>log := log w @ rs\<rparr>
        \<or> (\<exists>vp. validatePostData urlProtocol cfg patch True = Inr vp
              \<and> snd (updatePost session urlProtocol cfg key patch now w)
                  = snd (docUpdate key (vp(''updatedAt'' \<mapsto> JTime now))
                           (w\<lparr>log := log w @ rs\<rparr>))))"
proof (cases "requireAdmin session")
  case (Inl e)
  then have "snd (updatePost session urlProtocol cfg key patch now w) = w\<lparr>log := log w @ []\<rparr>"
    by (simp add: updatePost_def)
  moreover have "list_all isRead []" by simp
  ultimately show ?thesis by blast
next
  case (Inr usr)
  obtain found w1 where g: "getPostByIdOrSlug key w = (found, w1)"
    by (cases "getPostByIdOrSlug key w")
  obtain r1 where r1: "list_all isRead r1" and w1: "w1 = w\<lparr>log := log w @ r1\<rparr>"
    using getPostByIdOrSlug_world [of key w] g by auto
  show ?thesis
  proof (cases found)
    case None
    with Inr g have "snd (updatePost session urlProtocol cfg key patch now w) = w1"
      by (simp add: updatePost_def)
    with r1 w1 show ?thesis by blast
  next
    case (Some existingPost)
    show ?thesis
    proof (cases "getProp existingPost ''authorId'' \<noteq> JStr (uid usr)")
      case True
      with Inr g Some have "snd (updatePost session urlProtocol cfg key patch now w) = w1"
        by (simp add: updatePost_def)
      with r1 w1 show ?thesis by blast
    next
      case False
      show ?thesis
      proof (cases "validatePostData urlProtocol cfg patch True")
        case (Inl e)
        with Inr g Some False
        have "snd (updatePost session urlProtocol cfg key patch now w) = w1"
          by (simp add: updatePost_def)
        with r1 w1 show ?thesis by blast
      next
        case vp: (Inr vp)
        let ?cond = "truthy (getProp vp ''slug'')
                       \<and> getProp vp ''slug'' \<noteq> getProp existingPost ''slug''"
        obtain other w2 where q:
          "(if ?cond then getPostBySlug (getProp vp ''slug'') w1 else (None, w1)) = (other, w2)"
          by (cases "if ?cond then getPostBySlug (getProp vp ''slug'') w1 else (None, w1)")
        obtain r2 where r2: "list_all isRead r2" and w2: "w2 = w\<lparr>log := log w @ r2\<rparr>"
        proof (cases ?cond)
          case True
          with q have "w2 = w1\<lparr>log := log w1 @ [SlugQuery (getProp vp ''slug'')]\<rparr>"
            by (auto simp: getPostBySlug_eq)
          with w1 have "w2 = w\<lparr>log := log w @ (r1 @ [SlugQuery (getProp vp ''slug'')])\<rparr>"
            by simp
          moreover have "list_all isRead (r1 @ [SlugQuery (getProp vp ''slug'')])"
            using r1 by simp
          ultimately show ?thesis using that by blast
        next
          case False
          with q have "w2 = w1" by auto
          with r1 w1 show ?thesis using that by blast
        qed
        let ?conflict = "case other of Some x \<Rightarrow> getProp x ''id'' \<noteq> JStr key | None \<Rightarrow> False"
        show ?thesis
        proof (cases ?conflict)
          case True
          with Inr g Some False vp q
          have "snd (updatePost session urlProtocol cfg key patch now w) = w2"
            by (simp add: updatePost_def)
          with r2 w2 show ?thesis by blast
        next
          case nc: False
          with Inr g Some False vp q
          have "snd (updatePost session urlProtocol cfg key patch now w)
                  = snd (docUpdate key (vp(''updatedAt'' \<mapsto> JTime now)) w2)"
            by (simp add: updatePost_def Let_def split: prod.splits sum.splits)
          with r2 w2 vp show ?thesis by blast
        qed
      qed
    qed
  qed
qed

lemma docUpdate_posts:
  "posts (snd (docUpdate key patch w))
     = map (\<lambda>(i, d). if i = key then (i, d ++ patch) else (i, d)) (posts w)"
proof -
  have "map (\<lambda>(i, d). if i = key then (i, d ++ patch) else (i, d)) ps = ps"
    if "map_of ps key = None" for ps :: "(string \<times> obj) list"
    using that by (induction ps) (auto split: if_splits)
  then show ?thesis by (auto simp: docUpdate_def)
qed

lemma docUpdate_log: "log (snd (docUpdate key patch w)) = log w @ [DocUpdate key patch]"
  by (simp add: docUpdate_def)

lemma docUpdate_missing:
  "map_of (posts w) key = None \<Longrightarrow>
   docUpdate key patch w
     = (Inl (BackendError ''not-found''), w\<lparr>log := log w @ [DocUpdate key patch]\<rparr>)"
  by (simp add: docUpdate_def)

lemma docUpdate_present:
  "map_of (posts w) key = Some d \<Longrightarrow>
   docUpdate key patch w
     = (Inr (), w\<lparr>posts := map (\<lambda>(i, d). if i = key then (i, d ++ patch) else (i, d)) (posts w),
                  log := log w @ [DocUpdate key patch]\<rparr>)"
  by (simp add: docUpdate_def)

lemma validatePostData_dom:
  assumes "validatePostData urlProtocol cfg patch isUpdate = Inr vp"
  shows "dom vp \<subseteq> {''title'', ''contentHtml'', ''status'', ''tags'', ''coverUrl'', ''slug''}"
proof -
  have "runChecks (postChecks urlProtocol cfg isUpdate) patch Map.empty = Inr vp"
    using assms by (simp add: validatePostData_runChecks)
  then have "dom vp \<subseteq> dom (Map.empty :: obj) \<union> fst ` set (postChecks urlProtocol cfg isUpdate)"
    by (rule runChecks_dom)
  then show ?thesis by (simp add: postChecks_def)
qed

lemma merge_keeps_authorId:
  assumes "patch ''authorId'' = None"
  shows "map (\<lambda>(i, d). (i, d ''authorId''))
           (map (\<lambda>(i, d). if i = key then (i, d ++ patch) else (i, d)) ps)
         = map (\<lambda>(i, d). (i, d ''authorId'')) ps"
  using assms by (induction ps) (auto simp: map_add_def)

lemma dom_stamp: "dom vp \<subseteq> S \<Longrightarrow> dom (vp(k \<mapsto> x)) \<subseteq> insert k S"
  by auto

lemma log_shape:
  "list_all isRead rs \<Longrightarrow> P d0 \<Longrightarrow>
   \<forall>c \<in> set (rs @ [DocUpdate key d0]). isRead c \<or> (\<exists>d. c = DocUpdate key d \<and> P d)"
  by (auto simp: list_all_iff)

text \<open>
  Claim C9. No \<open>updatePost\<close> call, whatever the patch, changes the \<open>authorId\<close> stored for any
  post: validation produces only the fields title, contentHtml, status, tags, coverUrl and
  slug, and every write \<open>updatePost\<close> issues is an update of the document \<open>key\<close> with those
  fields and \<open>updatedAt\<close> at most.
\<close>

theorem updatePost_keeps_authorId:
  "map (\<lambda>(i, d). (i, d ''authorId''))
       (posts (snd (updatePost session urlProtocol cfg key patch now w)))
     = map (\<lambda>(i, d). (i, d ''authorId'')) (posts w)
   \<and> (validatePostData urlProtocol cfg patch isUpdate = Inr vp \<longrightarrow>
        dom vp \<subseteq> {''title'', ''contentHtml'', ''status'', ''tags'', ''coverUrl'', ''slug''})
   \<and> (\<forall>c \<in> set (drop (length (log w))
                  (log (snd (updatePost session urlProtocol cfg key patch now w)))).
        isRead c
        \<or> (\<exists>d. c = DocUpdate key d
              \<and> dom d \<subseteq> {''updatedAt'', ''title'', ''contentHtml'', ''status'', ''tags'',
                             ''coverUrl'', ''slug''}))"
proof (intro conjI impI)
  assume "validatePostData urlProtocol cfg patch isUpdate = Inr vp"
  then show "dom vp \<subseteq> {''title'', ''contentHtml'', ''status'', ''tags'', ''coverUrl'', ''slug''}"
    by (rule validatePostData_dom)
next
  let ?w' = "snd (updatePost session urlProtocol cfg key patch now w)"
  from updatePost_world [of session urlProtocol cfg key patch now w]
  obtain rs where rs: "list_all isRead rs"
    and alt: "?w' = w\<lparr>log := log w @ rs\<rparr>
      \<or> (\<exists>vp'. validatePostData urlProtocol cfg patch True = Inr vp'
            \<and> ?w' = snd (docUpdate key (vp'(''updatedAt'' \<mapsto> JTime now))
                          (w\<lparr>log := log w @ rs\<rparr>)))"
    by blast
  from alt show "map (\<lambda>(i, d). (i, d ''authorId'')) (posts ?w')
                   = map (\<lambda>(i, d). (i, d ''authorId'')) (posts w)"
  proof
    assume "?w' = w\<lparr>log := log w @ rs\<rparr>"
    then show ?thesis by simp
  next
    assume "\<exists>vp'. validatePostData urlProtocol cfg patch True = Inr vp'
            \<and> ?w' = snd (docUpdate key (vp'(''updatedAt'' \<mapsto> JTime now))
                          (w\<lparr>log := log w @ rs\<rparr>))"
    then obtain vp' where v: "validatePostData urlProtocol cfg patch True = Inr vp'"
      and w': "?w' = snd (docUpdate key (vp'(''updatedAt'' \<mapsto> JTime now))
                          (w\<lparr>log := log w @ rs\<rparr>))" by blast
    from validatePostData_dom [OF v] have "vp' ''authorId'' = None" by auto
    then have na: "(vp'(''updatedAt'' \<mapsto> JTime now)) ''authorId'' = None" by simp
    have "posts ?w' = map (\<lambda>(i, d). if i = key
                             then (i, d ++ vp'(''updatedAt'' \<mapsto> JTime now)) else (i, d))
                        (posts w)"
      by (simp add: w' docUpdate_posts)
    then show ?thesis
      using merge_keeps_authorId [of "vp'(''updatedAt'' \<mapsto> JTime now)" key "posts w", OF na]
      by (simp only:)
  qed
  from alt show "\<forall>c \<in> set (drop (length (log w)) (log ?w')).
        isRead c
        \<or> (\<exists>d. c = DocUpdate key d
              \<and> dom d \<subseteq> {''updatedAt'', ''title'', ''contentHtml'', ''status'', ''tags'',
                             ''coverUrl'', ''slug''})"
  proof
    assume "?w' = w\<lparr>log := log w @ rs\<rparr>"
    then show ?thesis using rs by (simp add: list_all_iff)
  next
    assume "\<exists>vp'. validatePostData urlProtocol cfg patch True = Inr vp'
            \<and> ?w' = snd (docUpdate key (vp'(''updatedAt'' \<mapsto> JTime now))
                          (w\<lparr>log := log w @ rs\<rparr>))"
    then obtain vp' where v: "validatePostData urlProtocol cfg patch True = Inr vp'"
      and w': "?w' = snd (docUpdate key (vp'(''updatedAt'' \<mapsto> JTime now))
                          (w\<lparr>log := log w @ rs\<rparr>))" by blast
    have d: "dom (vp'(''updatedAt'' \<mapsto> JTime now))
            \<subseteq> {''updatedAt'', ''title'', ''contentHtml'', ''status'', ''tags'',
                 ''coverUrl'', ''slug''}"
      by (rule dom_stamp [OF validatePostData_dom [OF v]])
    have l: "drop (length (log w)) (log ?w')
               = rs @ [DocUpdate key (vp'(''updatedAt'' \<mapsto> JTime now))]"
      by (simp add: w' docUpdate_log)
    show ?thesis unfolding l
      by (rule log_shape [of rs "\<lambda>d. dom d \<subseteq> {''updatedAt'', ''title'', ''contentHtml'',
            ''status'', ''tags'', ''coverUrl'', ''slug''}", OF rs d])
  qed
qed

lemma rename_validates:
  "validatePostData exampleUrlProtocol APP_CONFIG renamePatch True = Inr renameValidated"
  by (simp add: validatePostData_def renamePatch_def renameValidated_def
      setField_def getProp_def checkTitle_def checkContentHtml_def
      checkStatus_def checkTags_def checkUrl_def checkSlug_def bindE_def APP_CONFIG_def
      more_trims)

theorem updatePost_keeps_authorId_witness:
  "renamePatch ''authorId'' = Some (JStr ''someone-else'')
   \<and> validatePostData exampleUrlProtocol APP_CONFIG renamePatch True = Inr renameValidated
   \<and> dom renameValidated
       \<subseteq> {''title'', ''contentHtml'', ''status'', ''tags'', ''coverUrl'', ''slug''}
   \<and> map (\<lambda>(i, d). (i, d ''authorId''))
        (posts (snd (updatePost (Some adminUser) exampleUrlProtocol APP_CONFIG ''p1''
                       renamePatch 20 blogWorld)))
       = map (\<lambda>(i, d). (i, d ''authorId'')) (posts blogWorld)"
proof -
  note t = updatePost_keeps_authorId [of "Some adminUser" exampleUrlProtocol APP_CONFIG
      "''p1''" renamePatch 20 blogWorld True renameValidated]
  have a: "renamePatch ''authorId'' = Some (JStr ''someone-else'')"
    by (simp add: renamePatch_def)
  have b: "dom renameValidated
       \<subseteq> {''title'', ''contentHtml'', ''status'', ''tags'', ''coverUrl'', ''slug''}"
    by (rule mp [OF t [THEN conjunct2, THEN conjunct1] rename_validates])
  have c: "map (\<lambda>(i, d). (i, d ''authorId''))
        (posts (snd (updatePost (Some adminUser) exampleUrlProtocol APP_CONFIG ''p1''
                       renamePatch 20 blogWorld)))
       = map (\<lambda>(i, d). (i, d ''authorId'')) (posts blogWorld)"
    by (rule t [THEN conjunct1])
  show ?thesis using a rename_validates b c by blast
qed

lemma getPostByIdOrSlug_posts: "posts (snd (getPostByIdOrSlug key w)) = posts w"
proof -
  obtain rs where "snd (getPostByIdOrSlug key w) = w\<lparr>log := log w @ rs\<rparr>"
    using getPostByIdOrSlug_world by blast
  then show ?thesis by simp
qed

lemma updatePost_notFound:
  assumes "requireAdmin session = Inr usr" and "fst (getPostByIdOrSlug key w) = None"
  shows "updatePost session urlProtocol cfg key patch now w
           = (Inl NotFound, snd (getPostByIdOrSlug key w))"
  using assms by (cases "getPostByIdOrSlug key w") (simp add: updatePost_def)

lemma updatePost_forbidden:
  assumes "requireAdmin session = Inr usr" and "fst (getPostByIdOrSlug key w) = Some e"
    and "getProp e ''authorId'' \<noteq> JStr (uid usr)"
  shows "updatePost session urlProtocol cfg key patch now w
           = (Inl (Forbidden EditNotOwner), snd (getPostByIdOrSlug key w))"
  using assms by (cases "getPostByIdOrSlug key w") (simp add: updatePost_def)

lemma updatePost_invalid:
  assumes "requireAdmin session = Inr usr" and "fst (getPostByIdOrSlug key w) = Some e"
    and "getProp e ''authorId'' = JStr (uid usr)"
    and "validatePostData urlProtocol cfg patch True = Inl err"
  shows "updatePost session urlProtocol cfg key patch now w
           = (Inl err, snd (getPostByIdOrSlug key w))"
  using assms by (cases "getPostByIdOrSlug key w") (simp add: updatePost_def)

text \<open>The write is reached when no other post carries the patch's new slug.\<close>

lemma updatePost_reaches_write:
  assumes admin: "requireAdmin session = Inr usr"
    and got: "getPostByIdOrSlug key w = (Some e, w1)"
    and posts1: "posts w1 = posts w"
    and owner: "getProp e ''authorId'' = JStr (uid usr)"
    and valid: "validatePostData urlProtocol cfg patch True = Inr vp"
    and free: "\<not> truthy (getProp vp ''slug'') \<or> getProp vp ''slug'' = getProp e ''slug''
               \<or> find (\<lambda>(i, d). getProp d ''slug'' = getProp vp ''slug'') (posts w) = None"
  shows "\<exists>rs. list_all isRead rs
           \<and> updatePost session urlProtocol cfg key patch now w
               = (case docUpdate key (vp(''updatedAt'' \<mapsto> JTime now)) (w1\<lparr>log := log w1 @ rs\<rparr>) of
                    (Inl err, w3) \<Rightarrow> (Inl err, w3)
                  | (Inr u, w3) \<Rightarrow>
                      (Inr ((Map.empty(''id'' \<mapsto> JStr key)) ++ e
                              ++ vp(''updatedAt'' \<mapsto> JTime now)), w3))"
proof (cases "truthy (getProp vp ''slug'') \<and> getProp vp ''slug'' \<noteq> getProp e ''slug''")
  case True
  with free posts1
  have f: "find (\<lambda>(i, d). getProp d ''slug'' = getProp vp ''slug'') (posts w1) = None"
    by auto
  have "updatePost session urlProtocol cfg key patch now w
      = (case docUpdate key (vp(''updatedAt'' \<mapsto> JTime now))
                (w1\<lparr>log := log w1 @ [SlugQuery (getProp vp ''slug'')]\<rparr>) of
           (Inl err, w3) \<Rightarrow> (Inl err, w3)
         | (Inr u, w3) \<Rightarrow>
             (Inr ((Map.empty(''id'' \<mapsto> JStr key)) ++ e
                     ++ vp(''updatedAt'' \<mapsto> JTime now)), w3))"
    using admin got owner valid True f
    by (simp add: updatePost_def getPostBySlug_eq Let_def)
  moreover have "list_all isRead [SlugQuery (getProp vp ''slug'')]" by simp
  ultimately show ?thesis by blast
next
  case False
  have "updatePost session urlProtocol cfg key patch now w
      = (case docUpdate key (vp(''updatedAt'' \<mapsto> JTime now)) (w1\<lparr>log := log w1 @ []\<rparr>) of
           (Inl err, w3) \<Rightarrow> (Inl err, w3)
         | (Inr u, w3) \<Rightarrow>
             (Inr ((Map.empty(''id'' \<mapsto> JStr key)) ++ e
                     ++ vp(''updatedAt'' \<mapsto> JTime now)), w3))"
  proof (cases "truthy (getProp vp ''slug'')")
    case True
    with False have "getProp vp ''slug'' = getProp e ''slug''" by simp
    with admin got owner valid show ?thesis by (simp add: updatePost_def Let_def)
  next
    case nt: False
    with admin got owner valid show ?thesis by (simp add: updatePost_def Let_def)
  qed
  moreover have "list_all isRead []" by simp
  ultimately show ?thesis by blast
qed

lemma withId_twice: "(Map.empty(''id'' \<mapsto> JStr key)) ++ withId key p = withId key p"
  by (auto simp: withId_def map_add_def fun_eq_iff split: option.splits)

lemma updatePost_owner:
  assumes admin: "requireAdmin session = Inr usr"
    and present: "map_of (posts w) key = Some p"
    and owner: "getProp p ''authorId'' = JStr (uid usr)"
    and valid: "validatePostData urlProtocol cfg patch True = Inr vp"
    and free: "\<not> truthy (getProp vp ''slug'') \<or> getProp vp ''slug'' = getProp p ''slug''
               \<or> find (\<lambda>(i, d). getProp d ''slug'' = getProp vp ''slug'') (posts w) = None"
  shows "fst (updatePost session urlProtocol cfg key patch now w)
           = Inr (withId key p ++ vp(''updatedAt'' \<mapsto> JTime now))
       \<and> posts (snd (updatePost session urlProtocol cfg key patch now w))
           = map (\<lambda>(i, d). if i = key then (i, d ++ vp(''updatedAt'' \<mapsto> JTime now))
                            else (i, d)) (posts w)"
proof -
  let ?w1 = "w\<lparr>log := log w @ [DocGet key]\<rparr>"
  have got: "getPostByIdOrSlug key w = (Some (withId key p), ?w1)"
    using present by (rule getPostByIdOrSlug_hit)
  have o: "getProp (withId key p) ''authorId'' = JStr (uid usr)"
    using owner by (simp add: getProp_withId)
  have fr: "\<not> truthy (getProp vp ''slug'')
              \<or> getProp vp ''slug'' = getProp (withId key p) ''slug''
              \<or> find (\<lambda>(i, d). getProp d ''slug'' = getProp vp ''slug'') (posts w) = None"
    using free by (simp add: getProp_withId)
  from updatePost_reaches_write [OF admin got _ o valid fr, of now]
  obtain rs where u: "updatePost session urlProtocol cfg key patch now w
               = (case docUpdate key (vp(''updatedAt'' \<mapsto> JTime now)) (?w1\<lparr>log := log ?w1 @ rs\<rparr>) of
                    (Inl err, w3) \<Rightarrow> (Inl err, w3)
                  | (Inr u, w3) \<Rightarrow>
                      (Inr ((Map.empty(''id'' \<mapsto> JStr key)) ++ withId key p
                              ++ vp(''updatedAt'' \<mapsto> JTime now)), w3))"
    by auto
  have "map_of (posts (?w1\<lparr>log := log ?w1 @ rs\<rparr>)) key = Some p" using present by simp
  from docUpdate_present [OF this] u show ?thesis by (simp add: withId_twice)
qed

text \<open>
  What an admin's \<open>updatePost\<close> call does: a key that resolves to no post ends in
  \<open>NotFound\<close>, a post of another author in \<open>Forbidden\<close>, the stored posts unchanged in both
  cases. An owner's call with the post's document identifier, a patch that passes update-mode
  validation and a slug that is empty, unchanged or carried by no post merges the validated
  fields and \<open>updatedAt\<close> into the stored post and returns the merged view.
\<close>

theorem updatePost_authorization:
  assumes admin: "requireAdmin session = Inr usr"
  shows "(fst (getPostByIdOrSlug key w) = None \<longrightarrow>
            fst (updatePost session urlProtocol cfg key patch now w) = Inl NotFound
            \<and> posts (snd (updatePost session urlProtocol cfg key patch now w)) = posts w)
       \<and> (fst (getPostByIdOrSlug key w) = Some e \<and> getProp e ''authorId'' \<noteq> JStr (uid usr) \<longrightarrow>
            fst (updatePost session urlProtocol cfg key patch now w) = Inl (Forbidden EditNotOwner)
            \<and> posts (snd (updatePost session urlProtocol cfg key patch now w)) = posts w)
       \<and> (map_of (posts w) key = Some p \<and> getProp p ''authorId'' = JStr (uid usr)
            \<and> validatePostData urlProtocol cfg patch True = Inr vp
            \<and> (\<not> truthy (getProp vp ''slug'') \<or> getProp vp ''slug'' = getProp p ''slug''
                \<or> find (\<lambda>(i, d). getProp d ''slug'' = getProp vp ''slug'') (posts w) = None) \<longrightarrow>
            fst (updatePost session urlProtocol cfg key patch now w)
              = Inr (withId key p ++ vp(''updatedAt'' \<mapsto> JTime now))
            \<and> posts (snd (updatePost session urlProtocol cfg key patch now w))
                = map (\<lambda>(i, d). if i = key then (i, d ++ vp(''updatedAt'' \<mapsto> JTime now))
                                 else (i, d)) (posts w))"
proof (intro conjI impI)
  assume "fst (getPostByIdOrSlug key w) = None"
  then show "fst (updatePost session urlProtocol cfg key patch now w) = Inl NotFound"
    and "posts (snd (updatePost session urlProtocol cfg key patch now w)) = posts w"
    using admin by (simp_all add: updatePost_notFound getPostByIdOrSlug_posts)
next
  assume "fst (getPostByIdOrSlug key w) = Some e \<and> getProp e ''authorId'' \<noteq> JStr (uid usr)"
  then show "fst (updatePost session urlProtocol cfg key patch now w)
               = Inl (Forbidden EditNotOwner)"
    and "posts (snd (updatePost session urlProtocol cfg key patch now w)) = posts w"
    using admin by (simp_all add: updatePost_forbidden getPostByIdOrSlug_posts)
next
  assume h: "map_of (posts w) key = Some p \<and> getProp p ''authorId'' = JStr (uid usr)
            \<and> validatePostData urlProtocol cfg patch True = Inr vp
            \<and> (\<not> truthy (getProp vp ''slug'') \<or> getProp vp ''slug'' = getProp p ''slug''
                \<or> find (\<lambda>(i, d). getProp d ''slug'' = getProp vp ''slug'') (posts w) = None)"
  then have 1: "map_of (posts w) key = Some p" and 2: "getProp p ''authorId'' = JStr (uid usr)"
    and 3: "validatePostData urlProtocol cfg patch True = Inr vp"
    and 4: "\<not> truthy (getProp vp ''slug'') \<or> getProp vp ''slug'' = getProp p ''slug''
            \<or> find (\<lambda>(i, d). getProp d ''slug'' = getProp vp ''slug'') (posts w) = None"
    by simp_all
  note r = updatePost_owner [OF admin 1 2 3 4, of now]
  from r show "fst (updatePost session urlProtocol cfg key patch now w)
              = Inr (withId key p ++ vp(''updatedAt'' \<mapsto> JTime now))" by (rule conjunct1)
  from r show "posts (snd (updatePost session urlProtocol cfg key patch now w))
                = map (\<lambda>(i, d). if i = key then (i, d ++ vp(''updatedAt'' \<mapsto> JTime now))
                                 else (i, d)) (posts w)" by (rule conjunct2)
qed

lemma archive_invalid:
  "validatePostData exampleUrlProtocol APP_CONFIG archivePatch True = Inl InvalidStatus"
  by (simp add: validatePostData_def archivePatch_def setField_def getProp_def checkTitle_def
      checkContentHtml_def checkStatus_def bindE_def)

lemma p1_resolves:
  "fst (getPostByIdOrSlug ''p1'' blogWorld) = Some (withId ''p1'' examplePost)"
  by (simp add: getPostByIdOrSlug_hit [OF blog_lookups(1)])

lemma p3_resolves:
  "fst (getPostByIdOrSlug ''p3'' blogWorld) = Some (withId ''p3'' othersPost)"
  by (simp add: getPostByIdOrSlug_hit [OF blog_lookups(3)])

lemma nothing_resolves: "fst (getPostByIdOrSlug ''no-such-post'' blogWorld) = None"
  by (simp add: getPostByIdOrSlug_short [OF blog_lookups(6)])

text \<open>
  Validation comes before the write: the owner of post \<open>p1\<close>, an admin, sends a patch whose
  status is neither \<open>draft\<close> nor \<open>published\<close>, and the update ends in \<open>InvalidStatus\<close>.
\<close>

theorem updatePost_owner_invalid_patch:
  "requireAdmin (Some adminUser) = Inr adminUser
   \<and> map_of (posts blogWorld) ''p1'' = Some examplePost
   \<and> getProp examplePost ''authorId'' = JStr (uid adminUser)
   \<and> fst (updatePost (Some adminUser) exampleUrlProtocol APP_CONFIG ''p1'' archivePatch 20
            blogWorld) = Inl InvalidStatus"
proof -
  have o: "getProp (withId ''p1'' examplePost) ''authorId'' = JStr (uid adminUser)"
    by (simp add: getProp_withId blog_authors)
  have "fst (updatePost (Some adminUser) exampleUrlProtocol APP_CONFIG ''p1'' archivePatch 20
            blogWorld) = Inl InvalidStatus"
    by (simp add: updatePost_invalid [OF admin_session p1_resolves o archive_invalid])
  then show ?thesis using admin_session blog_lookups(1) blog_authors(1) by simp
qed

theorem updatePost_authorization_example:
  "requireAdmin (Some adminUser) = Inr adminUser
   \<and> fst (getPostByIdOrSlug ''no-such-post'' blogWorld) = None
   \<and> fst (updatePost (Some adminUser) exampleUrlProtocol APP_CONFIG ''no-such-post''
            renamePatch 20 blogWorld) = Inl NotFound
   \<and> fst (getPostByIdOrSlug ''p3'' blogWorld) = Some (withId ''p3'' othersPost)
   \<and> getProp (withId ''p3'' othersPost) ''authorId'' \<noteq> JStr (uid adminUser)
   \<and> fst (updatePost (Some adminUser) exampleUrlProtocol APP_CONFIG ''p3''
            renamePatch 20 blogWorld) = Inl (Forbidden EditNotOwner)
   \<and> posts (snd (updatePost (Some adminUser) exampleUrlProtocol APP_CONFIG ''p3''
                   renamePatch 20 blogWorld)) = posts blogWorld
   \<and> map_of (posts blogWorld) ''p1'' = Some examplePost
   \<and> getProp examplePost ''authorId'' = JStr (uid adminUser)
   \<and> fst (updatePost (Some adminUser) exampleUrlProtocol APP_CONFIG ''p1''
            renamePatch 20 blogWorld)
       = Inr (withId ''p1'' examplePost ++ renameValidated(''updatedAt'' \<mapsto> JTime 20))"
proof -
  have no: "getProp (withId ''p3'' othersPost) ''authorId'' \<noteq> JStr (uid adminUser)"
    by (simp add: getProp_withId blog_authors adminUser_def)
  have ns: "\<not> truthy (getProp renameValidated ''slug'')"
    by (simp add: getProp_def renameValidated_def)
  note a = updatePost_authorization [OF admin_session, where key = "''no-such-post''"
      and w = blogWorld and urlProtocol = exampleUrlProtocol and cfg = APP_CONFIG
      and patch = renamePatch and now = 20 and e = "withId ''p3'' othersPost"
      and p = examplePost and vp = renameValidated]
  note b = updatePost_authorization [OF admin_session, where key = "''p3''"
      and w = blogWorld and urlProtocol = exampleUrlProtocol and cfg = APP_CONFIG
      and patch = renamePatch and now = 20 and e = "withId ''p3'' othersPost"
      and p = examplePost and vp = renameValidated]
  note c = updatePost_authorization [OF admin_session, where key = "''p1''"
      and w = blogWorld and urlProtocol = exampleUrlProtocol and cfg = APP_CONFIG
      and patch = renamePatch and now = 20 and e = "withId ''p3'' othersPost"
      and p = examplePost and vp = renameValidated]
  have a': "fst (updatePost (Some adminUser) exampleUrlProtocol APP_CONFIG ''no-such-post''
            renamePatch 20 blogWorld) = Inl NotFound"
    using mp [OF a [THEN conjunct1] nothing_resolves] by (rule conjunct1)
  have b': "fst (updatePost (Some adminUser) exampleUrlProtocol APP_CONFIG ''p3''
            renamePatch 20 blogWorld) = Inl (Forbidden EditNotOwner)
     \<and> posts (snd (updatePost (Some adminUser) exampleUrlProtocol APP_CONFIG ''p3''
                   renamePatch 20 blogWorld)) = posts blogWorld"
    using b [THEN conjunct2, THEN conjunct1] p3_resolves no by (rule mp [OF _ conjI])
  have c': "fst (updatePost (Some adminUser) exampleUrlProtocol APP_CONFIG ''p1''
            renamePatch 20 blogWorld)
       = Inr (withId ''p1'' examplePost ++ renameValidated(''updatedAt'' \<mapsto> JTime 20))"
    using c [THEN conjunct2, THEN conjunct2] blog_lookups(1) blog_authors(1) rename_validates ns
    by blast
  show ?thesis
    using admin_session nothing_resolves a' p3_resolves no b' blog_lookups(1) blog_authors(1) c'
    by blast
qed

subsection \<open>Updating through the slug fallback\<close>

lemma updatePost_by_slug_refused:
  assumes admin: "requireAdmin session = Inr usr"
    and miss: "map_of (posts w) key = None"
    and long: "length key > 20"
    and found: "find (\<lambda>(i, d). getProp d ''slug'' = JStr key) (posts w) = Some (pid, p)"
    and owner: "getProp p ''authorId'' = JStr (uid usr)"
    and valid: "validatePostData urlProtocol cfg patch True = Inr vp"
    and free: "\<not> truthy (getProp vp ''slug'') \<or> getProp vp ''slug'' = getProp p ''slug''
               \<or> find (\<lambda>(i, d). getProp d ''slug'' = getProp vp ''slug'') (posts w) = None"
  shows "\<exists>rs. list_all isRead rs
           \<and> updatePost session urlProtocol cfg key patch now w
               = (Inl (BackendError ''not-found''),
                  w\<lparr>log := log w @ rs @ [DocUpdate key (vp(''updatedAt'' \<mapsto> JTime now))]\<rparr>)"
proof -
  let ?w1 = "w\<lparr>log := log w @ [DocGet key, SlugQuery (JStr key)]\<rparr>"
  have got: "getPostByIdOrSlug key w = (Some (withId pid p), ?w1)"
    using miss long found by (simp add: getPostByIdOrSlug_fallback)
  have o: "getProp (withId pid p) ''authorId'' = JStr (uid usr)"
    using owner by (simp add: getProp_withId)
  have fr: "\<not> truthy (getProp vp ''slug'')
              \<or> getProp vp ''slug'' = getProp (withId pid p) ''slug''
              \<or> find (\<lambda>(i, d). getProp d ''slug'' = getProp vp ''slug'') (posts w) = None"
    using free by (simp add: getProp_withId)
  from updatePost_reaches_write [OF admin got _ o valid fr, of now]
  obtain r2 where r2: "list_all isRead r2"
    and u: "updatePost session urlProtocol cfg key patch now w
               = (case docUpdate key (vp(''updatedAt'' \<mapsto> JTime now)) (?w1\<lparr>log := log ?w1 @ r2\<rparr>) of
                    (Inl err, w3) \<Rightarrow> (Inl err, w3)
                  | (Inr u, w3) \<Rightarrow>
                      (Inr ((Map.empty(''id'' \<mapsto> JStr key)) ++ withId pid p
                              ++ vp(''updatedAt'' \<mapsto> JTime now)), w3))"
    by auto
  have m: "map_of (posts (?w1\<lparr>log := log ?w1 @ r2\<rparr>)) key = None" using miss by simp
  have "updatePost session urlProtocol cfg key patch now w
          = (Inl (BackendError ''not-found''),
             w\<lparr>log := log w @ ([DocGet key, SlugQuery (JStr key)] @ r2)
                      @ [DocUpdate key (vp(''updatedAt'' \<mapsto> JTime now))]\<rparr>)"
    using u [unfolded docUpdate_missing [OF m]] by simp
  moreover have "list_all isRead ([DocGet key, SlugQuery (JStr key)] @ r2)" using r2 by simp
  ultimately show ?thesis by blast
qed

lemma long_slug_found:
  "find (\<lambda>(i, d). getProp d ''slug'' = JStr ''a-long-slug-for-the-second-post'')
     (posts blogWorld) = Some (''p2'', longSlugPost)"
  by (simp add: blogWorld_def blog_slugs)

lemma rename_keeps_slug: "\<not> truthy (getProp renameValidated ''slug'')"
  by (simp add: getProp_def renameValidated_def)

text \<open>
  Claim C5 at the input it fails on. The admin owns post \<open>p2\<close> and the patch is valid. Called
  with the post's identifier the update succeeds. Called with the post's slug, the target is
  resolved through the slug fallback and passes the ownership test, but the write goes to the
  document named by the slug, which does not exist: the store refuses it and the post stays as
  it was.
\<close>

theorem updatePost_owner_by_slug_refused:
  "requireAdmin (Some adminUser) = Inr adminUser
   \<and> fst (getPostByIdOrSlug ''a-long-slug-for-the-second-post'' blogWorld)
       = Some (withId ''p2'' longSlugPost)
   \<and> getProp (withId ''p2'' longSlugPost) ''authorId'' = JStr (uid adminUser)
   \<and> validatePostData exampleUrlProtocol APP_CONFIG renamePatch True = Inr renameValidated
   \<and> fst (updatePost (Some adminUser) exampleUrlProtocol APP_CONFIG ''p2'' renamePatch 20
            blogWorld)
       = Inr (withId ''p2'' longSlugPost ++ renameValidated(''updatedAt'' \<mapsto> JTime 20))
   \<and> fst (updatePost (Some adminUser) exampleUrlProtocol APP_CONFIG
            ''a-long-slug-for-the-second-post'' renamePatch 20 blogWorld)
       = Inl (BackendError ''not-found'')
   \<and> posts (snd (updatePost (Some adminUser) exampleUrlProtocol APP_CONFIG
                   ''a-long-slug-for-the-second-post'' renamePatch 20 blogWorld))
       = posts blogWorld"
proof -
  have l: "length ''a-long-slug-for-the-second-post'' > 20" by simp
  have g: "fst (getPostByIdOrSlug ''a-long-slug-for-the-second-post'' blogWorld)
       = Some (withId ''p2'' longSlugPost)"
    using blog_lookups(5) l long_slug_found by (simp add: getPostByIdOrSlug_fallback)
  have o: "getProp (withId ''p2'' longSlugPost) ''authorId'' = JStr (uid adminUser)"
    by (simp add: getProp_withId blog_authors)
  have byId: "fst (updatePost (Some adminUser) exampleUrlProtocol APP_CONFIG ''p2'' renamePatch 20
            blogWorld)
       = Inr (withId ''p2'' longSlugPost ++ renameValidated(''updatedAt'' \<mapsto> JTime 20))"
    using updatePost_owner [OF admin_session blog_lookups(2) blog_authors(2) rename_validates,
        of 20] rename_keeps_slug by blast
  from updatePost_by_slug_refused [OF admin_session blog_lookups(5) l long_slug_found
      blog_authors(2) rename_validates, of 20] rename_keeps_slug
  obtain rs where "updatePost (Some adminUser) exampleUrlProtocol APP_CONFIG
            ''a-long-slug-for-the-second-post'' renamePatch 20 blogWorld
       = (Inl (BackendError ''not-found''),
          blogWorld\<lparr>log := log blogWorld @ rs
             @ [DocUpdate ''a-long-slug-for-the-second-post''
                  (renameValidated(''updatedAt'' \<mapsto> JTime 20))]\<rparr>)"
    by blast
  then have bySlug: "fst (updatePost (Some adminUser) exampleUrlProtocol APP_CONFIG
            ''a-long-slug-for-the-second-post'' renamePatch 20 blogWorld)
       = Inl (BackendError ''not-found'')
    \<and> posts (snd (updatePost (Some adminUser) exampleUrlProtocol APP_CONFIG
                   ''a-long-slug-for-the-second-post'' renamePatch 20 blogWorld))
       = posts blogWorld"
    by simp
  show ?thesis using admin_session g o rename_validates byId bySlug by blast
qed

lemma log_shape_key:
  "list_all isRead rs \<Longrightarrow>
   \<forall>c \<in> set (rs @ [DocUpdate key d0]). isRead c \<or> (\<exists>d. c = DocUpdate key d)"
  by (auto simp: list_all_iff)

text \<open>
  Claim C10. When the direct document lookup by \<open>key\<close> misses and the slug fallback resolves
  the post \<open>pid\<close>, then \<open>pid\<close> differs from \<open>key\<close>, and every write the call issues is an
  update of the document \<open>key\<close>, never of \<open>pid\<close>. In particular, when the caller owns the
  resolved post and the patch is valid and free of a slug conflict, the call ends with exactly
  that write, which the store refuses because no document \<open>key\<close> exists; the stored posts are
  unchanged.
\<close>

theorem updatePost_fallback_writes_key:
  assumes admin: "requireAdmin session = Inr usr"
    and miss: "map_of (posts w) key = None"
    and long: "length key > 20"
    and found: "find (\<lambda>(i, d). getProp d ''slug'' = JStr key) (posts w) = Some (pid, p)"
  shows "fst (getPostByIdOrSlug key w) = Some (withId pid p)
       \<and> pid \<noteq> key
       \<and> (\<forall>c \<in> set (drop (length (log w))
                      (log (snd (updatePost session urlProtocol cfg key patch now w)))).
            isRead c \<or> (\<exists>d. c = DocUpdate key d))
       \<and> (getProp p ''authorId'' = JStr (uid usr)
            \<and> validatePostData urlProtocol cfg patch True = Inr vp
            \<and> (\<not> truthy (getProp vp ''slug'') \<or> getProp vp ''slug'' = getProp p ''slug''
                \<or> find (\<lambda>(i, d). getProp d ''slug'' = getProp vp ''slug'') (posts w) = None) \<longrightarrow>
            (\<exists>rs. list_all isRead rs
               \<and> log (snd (updatePost session urlProtocol cfg key patch now w))
                   = log w @ rs @ [DocUpdate key (vp(''updatedAt'' \<mapsto> JTime now))])
            \<and> fst (updatePost session urlProtocol cfg key patch now w)
                = Inl (BackendError ''not-found'')
            \<and> posts (snd (updatePost session urlProtocol cfg key patch now w)) = posts w)"
proof (intro conjI impI)
  let ?w1 = "w\<lparr>log := log w @ [DocGet key, SlugQuery (JStr key)]\<rparr>"
  have got: "getPostByIdOrSlug key w = (Some (withId pid p), ?w1)"
    using miss long found by (simp add: getPostByIdOrSlug_fallback)
  then show "fst (getPostByIdOrSlug key w) = Some (withId pid p)" by simp
  from found have "(pid, p) \<in> set (posts w)" using find_Some_sat by fastforce
  then have "map_of (posts w) pid \<noteq> None" by (rule map_of_member)
  with miss show "pid \<noteq> key" by auto
  let ?w' = "snd (updatePost session urlProtocol cfg key patch now w)"
  from updatePost_world [of session urlProtocol cfg key patch now w]
  obtain rs where rs: "list_all isRead rs"
    and alt: "?w' = w\<lparr>log := log w @ rs\<rparr>
      \<or> (\<exists>vp'. validatePostData urlProtocol cfg patch True = Inr vp'
            \<and> ?w' = snd (docUpdate key (vp'(''updatedAt'' \<mapsto> JTime now))
                          (w\<lparr>log := log w @ rs\<rparr>)))"
    by blast
  from alt show "\<forall>c \<in> set (drop (length (log w)) (log ?w')).
                   isRead c \<or> (\<exists>d. c = DocUpdate key d)"
  proof
    assume "?w' = w\<lparr>log := log w @ rs\<rparr>"
    then show ?thesis using rs by (simp add: list_all_iff)
  next
    assume "\<exists>vp'. validatePostData urlProtocol cfg patch True = Inr vp'
            \<and> ?w' = snd (docUpdate key (vp'(''updatedAt'' \<mapsto> JTime now))
                          (w\<lparr>log := log w @ rs\<rparr>))"
    then obtain vp' where w': "?w' = snd (docUpdate key (vp'(''updatedAt'' \<mapsto> JTime now))
                          (w\<lparr>log := log w @ rs\<rparr>))" by blast
    have l: "drop (length (log w)) (log ?w')
               = rs @ [DocUpdate key (vp'(''updatedAt'' \<mapsto> JTime now))]"
      by (simp add: w' docUpdate_log)
    show ?thesis unfolding l
      by (rule log_shape_key [OF rs])
  qed
  assume h: "getProp p ''authorId'' = JStr (uid usr)
            \<and> validatePostData urlProtocol cfg patch True = Inr vp
            \<and> (\<not> truthy (getProp vp ''slug'') \<or> getProp vp ''slug'' = getProp p ''slug''
                \<or> find (\<lambda>(i, d). getProp d ''slug'' = getProp vp ''slug'') (posts w) = None)"
  then have o: "getProp (withId pid p) ''authorId'' = JStr (uid usr)"
    and valid: "validatePostData urlProtocol cfg patch True = Inr vp"
    and fr: "\<not> truthy (getProp vp ''slug'')
              \<or> getProp vp ''slug'' = getProp (withId pid p) ''slug''
              \<or> find (\<lambda>(i, d). getProp d ''slug'' = getProp vp ''slug'') (posts w) = None"
    by (simp_all add: getProp_withId)
  from updatePost_reaches_write [OF admin got _ o valid fr, of now]
  obtain r2 where r2: "list_all isRead r2"
    and u: "updatePost session urlProtocol cfg key patch now w
               = (case docUpdate key (vp(''updatedAt'' \<mapsto> JTime now)) (?w1\<lparr>log := log ?w1 @ r2\<rparr>) of
                    (Inl err, w3) \<Rightarrow> (Inl err, w3)
                  | (Inr u, w3) \<Rightarrow>
                      (Inr ((Map.empty(''id'' \<mapsto> JStr key)) ++ withId pid p
                              ++ vp(''updatedAt'' \<mapsto> JTime now)), w3))"
    by auto
  have m: "map_of (posts (?w1\<lparr>log := log ?w1 @ r2\<rparr>)) key = None" using miss by simp
  note e = u [unfolded docUpdate_missing [OF m]]
  from e show "fst (updatePost session urlProtocol cfg key patch now w)
                = Inl (BackendError ''not-found'')" by simp
  from e show "posts (snd (updatePost session urlProtocol cfg key patch now w)) = posts w"
    by simp
  have "list_all isRead ([DocGet key, SlugQuery (JStr key)] @ r2)" using r2 by simp
  moreover from e have "log (snd (updatePost session urlProtocol cfg key patch now w))
      = log w @ ([DocGet key, SlugQuery (JStr key)] @ r2)
          @ [DocUpdate key (vp(''updatedAt'' \<mapsto> JTime now))]" by simp
  ultimately show "\<exists>rs. list_all isRead rs
               \<and> log (snd (updatePost session urlProtocol cfg key patch now w))
                   = log w @ rs @ [DocUpdate key (vp(''updatedAt'' \<mapsto> JTime now))]"
    by blast
qed

theorem updatePost_fallback_writes_key_witness:
  "map_of (posts blogWorld) ''a-long-slug-for-the-second-post'' = None
   \<and> length ''a-long-slug-for-the-second-post'' > 20
   \<and> fst (getPostByIdOrSlug ''a-long-slug-for-the-second-post'' blogWorld)
       = Some (withId ''p2'' longSlugPost)
   \<and> ''p2'' \<noteq> ''a-long-slug-for-the-second-post''
   \<and> getProp longSlugPost ''authorId'' = JStr (uid adminUser)
   \<and> fst (updatePost (Some adminUser) exampleUrlProtocol APP_CONFIG
            ''a-long-slug-for-the-second-post'' renamePatch 20 blogWorld)
       = Inl (BackendError ''not-found'')
   \<and> posts (snd (updatePost (Some adminUser) exampleUrlProtocol APP_CONFIG
                   ''a-long-slug-for-the-second-post'' renamePatch 20 blogWorld))
       = posts blogWorld"
proof -
  have l: "length ''a-long-slug-for-the-second-post'' > 20" by simp
  have ns: "\<not> truthy (getProp renameValidated ''slug'')"
    by (simp add: getProp_def renameValidated_def)
  note t = updatePost_fallback_writes_key [OF admin_session blog_lookups(5) l long_slug_found,
      of exampleUrlProtocol APP_CONFIG renamePatch 20 renameValidated]
  have a: "fst (getPostByIdOrSlug ''a-long-slug-for-the-second-post'' blogWorld)
       = Some (withId ''p2'' longSlugPost)"
    by (rule t [THEN conjunct1])
  have b: "''p2'' \<noteq> ''a-long-slug-for-the-second-post''"
    by (rule t [THEN conjunct2, THEN conjunct1])
  have c: "fst (updatePost (Some adminUser) exampleUrlProtocol APP_CONFIG
            ''a-long-slug-for-the-second-post'' renamePatch 20 blogWorld)
       = Inl (BackendError ''not-found'')
     \<and> posts (snd (updatePost (Some adminUser) exampleUrlProtocol APP_CONFIG
                   ''a-long-slug-for-the-second-post'' renamePatch 20 blogWorld))
       = posts blogWorld"
    using t [THEN conjunct2, THEN conjunct2, THEN conjunct2] blog_authors(2) rename_validates ns
    by blast
  show ?thesis using blog_lookups(5) l a b blog_authors(2) c by blast
qed

section \<open>Upload mediator: properties\<close>

text \<open>
  Claim C8. \<open>uploadImage\<close> with a file whose declared type is not in the configured allow-list
  fails with \<open>InvalidFile\<close>, and with a file of an allowed type whose size exceeds the configured
  maximum with \<open>FileTooLarge\<close>, in both cases without a request to the image host; a file that
  passes both tests leads to exactly one request.
\<close>

theorem uploadImage_validates_first:
  "(fileType f \<notin> set (allowedImageTypes cfg) \<longrightarrow>
      uploadImage cl cfg currentUser fetch (Some f) folder = (Inl InvalidFile, []))
   \<and> (fileType f \<in> set (allowedImageTypes cfg) \<and> fileSize f > maxImageSize cfg \<longrightarrow>
      uploadImage cl cfg currentUser fetch (Some f) folder = (Inl FileTooLarge, []))
   \<and> (fileType f \<in> set (allowedImageTypes cfg) \<and> fileSize f \<le> maxImageSize cfg \<longrightarrow>
      length (snd (uploadImage cl cfg currentUser fetch (Some f) folder)) = 1)"
  by (simp add: uploadImage_def validateImageFile_def Let_def split: sum.splits)

theorem uploadImage_validates_first_witness:
  "fileType svgFile \<notin> set (allowedImageTypes APP_CONFIG)
   \<and> uploadImage exampleCloud APP_CONFIG None offlineFetch (Some svgFile) ''uploads''
       = (Inl InvalidFile, [])
   \<and> fileType hugePng \<in> set (allowedImageTypes APP_CONFIG)
   \<and> fileSize hugePng > maxImageSize APP_CONFIG
   \<and> uploadImage exampleCloud APP_CONFIG None offlineFetch (Some hugePng) ''uploads''
       = (Inl FileTooLarge, [])
   \<and> fileSize smallPng \<le> maxImageSize APP_CONFIG
   \<and> length (snd (uploadImage exampleCloud APP_CONFIG None offlineFetch (Some smallPng)
                     ''uploads'')) = 1"
proof -
  have a: "fileType svgFile \<notin> set (allowedImageTypes APP_CONFIG)"
    by (simp add: svgFile_def APP_CONFIG_def)
  have b: "fileType hugePng \<in> set (allowedImageTypes APP_CONFIG)"
    and c: "fileSize hugePng > maxImageSize APP_CONFIG"
    by (simp_all add: hugePng_def APP_CONFIG_def)
  have d: "fileType smallPng \<in> set (allowedImageTypes APP_CONFIG)"
    and e: "fileSize smallPng \<le> maxImageSize APP_CONFIG"
    by (simp_all add: smallPng_def APP_CONFIG_def)
  note t1 = uploadImage_validates_first [of svgFile APP_CONFIG exampleCloud None offlineFetch
      "''uploads''"]
  note t2 = uploadImage_validates_first [of hugePng APP_CONFIG exampleCloud None offlineFetch
      "''uploads''"]
  note t3 = uploadImage_validates_first [of smallPng APP_CONFIG exampleCloud None offlineFetch
      "''uploads''"]
  have r1: "uploadImage exampleCloud APP_CONFIG None offlineFetch (Some svgFile) ''uploads''
       = (Inl InvalidFile, [])"
    by (rule mp [OF t1 [THEN conjunct1] a])
  have r2: "uploadImage exampleCloud APP_CONFIG None offlineFetch (Some hugePng) ''uploads''
       = (Inl FileTooLarge, [])"
    by (rule mp [OF t2 [THEN conjunct2, THEN conjunct1] conjI [OF b c]])
  have r3: "length (snd (uploadImage exampleCloud APP_CONFIG None offlineFetch (Some smallPng)
                     ''uploads'')) = 1"
    by (rule mp [OF t3 [THEN conjunct2, THEN conjunct2] conjI [OF d e]])
  show ?thesis using a r1 b c r2 e r3 by blast
qed

end
